theory Spec2Isabelle
  imports Complex_Main
begin

section \<open>Python values and exceptions\<close>

text \<open>
  The exceptions that \<^verbatim>\<open>tensorboard.py\<close> (and the numpy calls it makes) can raise.
\<close>

datatype error =
    ValueError
  | TypeError
  | KeyError
  | NotImplementedError
  | RuntimeError
  | AssertionError
  | OverflowError

text \<open>
  The values a caller can hand to \<^verbatim>\<open>observe_state\<close> and \<^verbatim>\<open>unobserve_state\<close> as a key
  or as the \<^verbatim>\<open>observe_while\<close> token: \<^verbatim>\<open>None\<close>, strings, numbers and (unhashable) lists.
\<close>

datatype pyval =
    PNone
  | PStr string
  | PInt int
  | PFloat real
  | PList "pyval list"

fun isinstance_str :: "pyval \<Rightarrow> bool" where
  "isinstance_str (PStr s) = True"
| "isinstance_str v = False"

text \<open>
  Modelled from the spec: \<^verbatim>\<open>utils.exceptions.assert_\<close> is imported but its file is not part
  of the sources. The spec's error design (an invalid argument is a failure "raised
  immediately" that "aborts the call") and the call sites
  \<^verbatim>\<open>assert_(condition, message, exception_type)\<close> fix it (here \<open>assert_raise\<close>): when the condition is false the
  given exception is raised, otherwise nothing happens. \<open>None\<close> is "no exception".
\<close>

definition assert_raise :: "bool \<Rightarrow> error \<Rightarrow> error option" where
  "assert_raise condition exception_type = (if condition then None else Some exception_type)"

section \<open>The logger object\<close>

text \<open>
  A selection of indices in \<^verbatim>\<open>self._config\<close>: a string token, a list (or tuple) of
  integers, one integer, or a value of any other type.
\<close>

datatype index_selection =
    Token string
  | Indices "int list"
  | Index int
  | OtherSelection

record config =
  image_batch_indices :: index_selection
  image_channel_indices :: index_selection
  volume_z_indices :: index_selection

text \<open>An array as numpy stores it: its shape and its elements in row-major (C) order.\<close>

record ndarray =
  shape :: "nat list"
  data :: "real list"

text \<open>The calls received by the \<^verbatim>\<open>tensorboardX.SummaryWriter\<close>, oldest first.\<close>

datatype writer_call =
    AddScalar string real int
  | AddImage string ndarray int

text \<open>
  The state of a \<^verbatim>\<open>TensorboardLogger\<close>. The two registries only ever hold strings (the
  defaults are strings and \<^verbatim>\<open>observe_state\<close> admits nothing else), so they are sets of
  strings. \<open>writer_handle\<close> is \<^verbatim>\<open>self._writer\<close>: \<open>None\<close> until the first use, then the
  calls the writer has received. \<open>iteration_count\<close> is \<^verbatim>\<open>self.trainer.iteration_count\<close>,
  \<open>warnings\<close> the tags for which \<^verbatim>\<open>warnings.warn\<close> was called.
\<close>

record logger =
  config_of :: config
  trainer_states_being_observed_while_training :: "string set"
  trainer_states_being_observed_while_validating :: "string set"
  writer_handle :: "writer_call list option"
  iteration_count :: int
  warnings :: "string list"

text \<open>The registries and configuration that \<^verbatim>\<open>__init__\<close> sets up by default.\<close>

definition init :: "int \<Rightarrow> logger" where
  "init it =
     \<lparr> config_of = \<lparr> image_batch_indices = Token ''all'',
                     image_channel_indices = Token ''all'',
                     volume_z_indices = Token ''mid'' \<rparr>,
       trainer_states_being_observed_while_training =
         {''training_loss'', ''training_error'', ''training_prediction'',
          ''training_inputs'', ''training_target'', ''learning_rate''},
       trainer_states_being_observed_while_validating =
         {''validation_error_averaged'', ''validation_loss_averaged''},
       writer_handle = None,
       iteration_count = it,
       warnings = [] \<rparr>"

section \<open>The observation registry\<close>

text \<open>\<^verbatim>\<open>keyword_mapping.get(observe_while)\<close>; hashing a list raises \<^verbatim>\<open>TypeError\<close>.\<close>

fun keyword_mapping_get :: "pyval \<Rightarrow> error + string option" where
  "keyword_mapping_get (PList vs) = Inl TypeError"
| "keyword_mapping_get (PStr s) =
     Inr (if s = ''train'' then Some ''training''
          else if s = ''training'' then Some ''training''
          else if s = ''validation'' then Some ''validating''
          else if s = ''validating'' then Some ''validating''
          else None)"
| "keyword_mapping_get v = Inr None"

text \<open>
  A method either returns (\<open>None\<close>) or raises (\<open>Some e\<close>); in both cases the logger is
  left in the state given as the second component.
\<close>

definition observe_state :: "logger \<Rightarrow> pyval \<Rightarrow> pyval \<Rightarrow> error option \<times> logger" where
  "observe_state self key observe_while =
     (case keyword_mapping_get observe_while of
        Inl e \<Rightarrow> (Some e, self)
      | Inr observe_while' \<Rightarrow>
          (case assert_raise (observe_while' \<noteq> None) ValueError of
             Some e \<Rightarrow> (Some e, self)
           | None \<Rightarrow>
               (case assert_raise (isinstance_str key) TypeError of
                  Some e \<Rightarrow> (Some e, self)
                | None \<Rightarrow>
                    (case key of
                       PStr k \<Rightarrow>
                         if observe_while' = Some ''training'' then
                           (None, self\<lparr>trainer_states_being_observed_while_training :=
                              insert k (trainer_states_being_observed_while_training self)\<rparr>)
                         else if observe_while' = Some ''validating'' then
                           (None, self\<lparr>trainer_states_being_observed_while_validating :=
                              insert k (trainer_states_being_observed_while_validating self)\<rparr>)
                         else (Some NotImplementedError, self)
                     | _ \<Rightarrow> (Some TypeError, self)))))"

text \<open>
  \<^verbatim>\<open>set.remove(key)\<close> on a set of strings: \<^verbatim>\<open>TypeError\<close> for an unhashable key,
  \<^verbatim>\<open>KeyError\<close> for a key that is not in the set.
\<close>

fun set_remove :: "string set \<Rightarrow> pyval \<Rightarrow> error + string set" where
  "set_remove s (PStr k) = (if k \<in> s then Inr (s - {k}) else Inl KeyError)"
| "set_remove s (PList vs) = Inl TypeError"
| "set_remove s v = Inl KeyError"

definition unobserve_state :: "logger \<Rightarrow> pyval \<Rightarrow> pyval \<Rightarrow> error option \<times> logger" where
  "unobserve_state self key observe_while =
     (if observe_while = PStr ''training'' then
        (case set_remove (trainer_states_being_observed_while_training self) key of
           Inl e \<Rightarrow> (Some e, self)
         | Inr s \<Rightarrow> (None, self\<lparr>trainer_states_being_observed_while_training := s\<rparr>))
      else if observe_while = PStr ''validating'' then
        (case set_remove (trainer_states_being_observed_while_validating self) key of
           Inl e \<Rightarrow> (Some e, self)
         | Inr s \<Rightarrow> (None, self\<lparr>trainer_states_being_observed_while_validating := s\<rparr>))
      else (Some NotImplementedError, self))"

text \<open>Calling \<^verbatim>\<open>observe_state\<close> and, if it returned, \<^verbatim>\<open>unobserve_state\<close>.\<close>

definition observe_then_unobserve :: "logger \<Rightarrow> pyval \<Rightarrow> pyval \<Rightarrow> error option \<times> logger" where
  "observe_then_unobserve self key observe_while =
     (case observe_state self key observe_while of
        (Some e, self') \<Rightarrow> (Some e, self')
      | (None, self') \<Rightarrow> unobserve_state self' key observe_while)"

section \<open>Arrays\<close>

definition ndim :: "ndarray \<Rightarrow> nat" where
  "ndim a = length (shape a)"

text \<open>An array holds as many elements as its shape says.\<close>

definition wellformed :: "ndarray \<Rightarrow> bool" where
  "wellformed a = (length (data a) = prod_list (shape a))"

text \<open>\<^verbatim>\<open>a[i]\<close>: the \<open>i\<close>-th block along the first axis.\<close>

definition subarray :: "ndarray \<Rightarrow> nat \<Rightarrow> ndarray" where
  "subarray a i =
     (let m = prod_list (tl (shape a))
      in \<lparr> shape = tl (shape a), data = take m (drop (i * m) (data a)) \<rparr>)"

text \<open>
  Iterating over an array yields its blocks along the first axis. (A 0-dimensional array
  cannot be iterated; every use below is on an array of at least one dimension.)
\<close>

definition iterate :: "ndarray \<Rightarrow> ndarray list" where
  "iterate a = (case shape a of [] \<Rightarrow> [] | n # ns \<Rightarrow> map (subarray a) [0..<n])"

text \<open>\<^verbatim>\<open>a.min()\<close> and \<^verbatim>\<open>a.max()\<close>; numpy raises \<^verbatim>\<open>ValueError\<close> on an array of size 0.\<close>

definition amin :: "ndarray \<Rightarrow> error + real" where
  "amin a = (case data a of [] \<Rightarrow> Inl ValueError | x # xs \<Rightarrow> Inr (fold min xs x))"

definition amax :: "ndarray \<Rightarrow> error + real" where
  "amax a = (case data a of [] \<Rightarrow> Inl ValueError | x # xs \<Rightarrow> Inr (fold max xs x))"

text \<open>All index tuples of a shape, in row-major order, and the offset of an index tuple.\<close>

fun indices :: "nat list \<Rightarrow> nat list list" where
  "indices [] = [[]]"
| "indices (n # ns) = [i # r. i \<leftarrow> [0..<n], r \<leftarrow> indices ns]"

fun offset :: "nat list \<Rightarrow> nat list \<Rightarrow> nat" where
  "offset (n # ns) (i # is) = i * prod_list ns + offset ns is"
| "offset ns is = 0"

text \<open>
  \<^verbatim>\<open>a.transpose(order)\<close>: axis \<open>k\<close> of the result is axis \<open>order ! k\<close> of \<open>a\<close>.
  \<open>position order p\<close> is the \<open>k\<close> with \<open>order ! k = p\<close>.
\<close>

definition position :: "nat list \<Rightarrow> nat \<Rightarrow> nat" where
  "position order p = length (takeWhile (\<lambda>q. q \<noteq> p) order)"

definition transpose_axes :: "ndarray \<Rightarrow> nat list \<Rightarrow> ndarray" where
  "transpose_axes a order =
     (let sh = map (\<lambda>p. shape a ! p) order
      in \<lparr> shape = sh,
           data = map (\<lambda>j. data a ! offset (shape a)
                              (map (\<lambda>p. j ! position order p) [0..<ndim a]))
                      (indices sh) \<rparr>)"

text \<open>
  \<^verbatim>\<open>np.moveaxis(a, source, destination)\<close> for one axis: the other axes keep their order
  and \<open>source\<close> is inserted at \<open>destination\<close>.
\<close>

definition moveaxis :: "ndarray \<Rightarrow> nat \<Rightarrow> nat \<Rightarrow> ndarray" where
  "moveaxis a source destination =
     (let order = filter (\<lambda>n. n \<noteq> source) [0..<ndim a]
      in transpose_axes a (take destination order @ [source] @ drop destination order))"

section \<open>Strings\<close>

text \<open>\<^verbatim>\<open>str.upper\<close> on ASCII text: the letters a to z become A to Z.\<close>

definition upper_char :: "char \<Rightarrow> char" where
  "upper_char c =
     (case map_of (zip ''abcdefghijklmnopqrstuvwxyz'' ''ABCDEFGHIJKLMNOPQRSTUVWXYZ'') c of
        Some u \<Rightarrow> u
      | None \<Rightarrow> c)"

definition upper :: "string \<Rightarrow> string" where
  "upper s = map upper_char s"

text \<open>\<^verbatim>\<open>'{}'.format(n)\<close> for a non-negative integer: its decimal digits.\<close>

definition digit_char :: "nat \<Rightarrow> char" where
  "digit_char d = ''0123456789'' ! d"

fun str_nat :: "nat \<Rightarrow> string" where
  "str_nat n = (if n < 10 then [digit_char n] else str_nat (n div 10) @ [digit_char (n mod 10)])"

declare str_nat.simps [simp del]

section \<open>The writer adapter\<close>

text \<open>\<^verbatim>\<open>TENSORBOARDX_IMAGE_FORMAT\<close>, hard coded in the class.\<close>

definition TENSORBOARDX_IMAGE_FORMAT :: string where
  "TENSORBOARDX_IMAGE_FORMAT = ''CHW''"

definition order_image_axes :: "ndarray \<Rightarrow> string \<Rightarrow> string \<Rightarrow> error + ndarray" where
  "order_image_axes img image_format target_format =
     (if ndim img = 2 then
        (if target_format = ''CHW'' then Inr (img\<lparr>shape := 1 # shape img\<rparr>)
         else if target_format = ''HWC'' then Inr (img\<lparr>shape := shape img @ [1]\<rparr>)
         else Inl NotImplementedError)
      else if ndim img = 3 \<and> upper image_format = ''CHW'' then
        (if target_format = ''CHW'' then Inr img
         else if target_format = ''HCW'' then Inr (moveaxis img 0 2)
         else Inl NotImplementedError)
      else if ndim img = 3 \<and> upper image_format = ''HWC'' then
        (if target_format = ''CHW'' then Inr (moveaxis img 2 0)
         else if target_format = ''HWC'' then Inr img
         else Inl NotImplementedError)
      else Inl RuntimeError)"

text \<open>
  Pixel values are real numbers here; \<^verbatim>\<open>image - image.min()\<close> and the division act on
  every element.
\<close>

definition normalize_image :: "ndarray \<Rightarrow> error + ndarray" where
  "normalize_image img =
     (case amin img of
        Inl e \<Rightarrow> Inl e
      | Inr m \<Rightarrow>
          (let normalized_image = img\<lparr>data := map (\<lambda>x. x - m) (data img)\<rparr>
           in case amax normalized_image of
                Inl e \<Rightarrow> Inl e
              | Inr maxval \<Rightarrow>
                  Inr (if maxval > 0
                       then normalized_image\<lparr>data := map (\<lambda>x. x / maxval) (data normalized_image)\<rparr>
                       else normalized_image)))"

text \<open>The \<^verbatim>\<open>writer\<close> property builds the writer on first use.\<close>

definition writer :: "logger \<Rightarrow> writer_call list \<times> logger" where
  "writer self =
     (case writer_handle self of
        None \<Rightarrow> ([], self\<lparr>writer_handle := Some []\<rparr>)
      | Some calls \<Rightarrow> (calls, self))"

definition add_call :: "logger \<Rightarrow> writer_call \<Rightarrow> logger" where
  "add_call self c = (case writer self of (calls, self') \<Rightarrow> self'\<lparr>writer_handle := Some (calls @ [c])\<rparr>)"

definition log_scalar :: "logger \<Rightarrow> string \<Rightarrow> real \<Rightarrow> int \<Rightarrow> logger" where
  "log_scalar self the_tag v step = add_call self (AddScalar the_tag v step)"

definition log_histogram :: "logger \<Rightarrow> string \<Rightarrow> ndarray \<Rightarrow> int \<Rightarrow> error option \<times> logger" where
  "log_histogram self the_tag vs step = (Some NotImplementedError, self)"

section \<open>Tensors and their classification\<close>

datatype dtype = FloatTensor | LongTensor

text \<open>A torch tensor: its element type and its values (what \<^verbatim>\<open>.float().numpy()\<close> returns).\<close>

record tensor =
  tensor_type :: dtype
  as_array :: ndarray

definition subtensor :: "tensor \<Rightarrow> nat \<Rightarrow> tensor" where
  "subtensor t i = t\<lparr>as_array := subarray (as_array t) i\<rparr>"

text \<open>
  Modelled from the spec: the predicates of \<^verbatim>\<open>utils.torch_utils\<close> are imported but their
  file is not part of the sources. The spec's glossary and dispatcher fix them: an image
  tensor has batch, channel, height and width axes; a volume tensor has a depth axis too;
  a label image or volume is an integer-class map with no channel axis; a scalar tensor
  is 0-dimensional; a vector tensor is 1-dimensional.
\<close>

definition is_image_tensor :: "tensor \<Rightarrow> bool" where
  "is_image_tensor t = (ndim (as_array t) = 4)"

definition is_volume_tensor :: "tensor \<Rightarrow> bool" where
  "is_volume_tensor t = (ndim (as_array t) = 5)"

definition is_image_or_volume_tensor :: "tensor \<Rightarrow> bool" where
  "is_image_or_volume_tensor t = (is_image_tensor t \<or> is_volume_tensor t)"

definition is_label_image_or_volume_tensor :: "tensor \<Rightarrow> bool" where
  "is_label_image_or_volume_tensor t =
     (tensor_type t = LongTensor \<and> (ndim (as_array t) = 3 \<or> ndim (as_array t) = 4))"

definition is_scalar_tensor :: "tensor \<Rightarrow> bool" where
  "is_scalar_tensor t = (ndim (as_array t) = 0)"

definition is_vector_tensor :: "tensor \<Rightarrow> bool" where
  "is_vector_tensor t = (ndim (as_array t) = 1)"

text \<open>
  Modelled from the spec: \<^verbatim>\<open>tu.unwrap(t.float(), extract_item=True)\<close> (its file is not
  part of the sources) gives the one number a scalar tensor holds.
\<close>

definition unwrap_item :: "tensor \<Rightarrow> error + real" where
  "unwrap_item t = (case data (as_array t) of [x] \<Rightarrow> Inr x | _ \<Rightarrow> Inl ValueError)"

text \<open>\<^verbatim>\<open>t[:, None, ...]\<close>: a new axis of size 1 after the first axis.\<close>

definition add_channel_axis :: "tensor \<Rightarrow> tensor" where
  "add_channel_axis t =
     t\<lparr>as_array := (as_array t)\<lparr>shape := take 1 (shape (as_array t)) @ [1] @ drop 1 (shape (as_array t))\<rparr>\<rparr>"

section \<open>The image extractor\<close>

record TaggedImage =
  array :: ndarray
  tag :: string

text \<open>An extracted image: a \<^verbatim>\<open>TaggedImage\<close>, or the bare array when no tag was asked for.\<close>

datatype image_item = Tagged TaggedImage | Raw ndarray

text \<open>A batch: a tensor, or a list (or tuple) of batches.\<close>

datatype batch = BTensor tensor | BList "batch list"

definition tag_image ::
  "ndarray \<Rightarrow> string \<Rightarrow> string option \<Rightarrow> nat option \<Rightarrow> nat option \<Rightarrow> nat option \<Rightarrow> TaggedImage"
where
  "tag_image img base_tag prefix instance_num channel_num slice_num =
     (let t = base_tag;
          t = (case prefix of None \<Rightarrow> t | Some p \<Rightarrow> base_tag @ ''/'' @ p);
          t = (case instance_num of None \<Rightarrow> t | Some i \<Rightarrow> t @ ''/instance_'' @ str_nat i);
          t = (case channel_num of None \<Rightarrow> t | Some c \<Rightarrow> t @ ''/channel_'' @ str_nat c);
          t = (case slice_num of None \<Rightarrow> t | Some z \<Rightarrow> t @ ''/slice_'' @ str_nat z)
      in \<lparr> array = img, tag = t \<rparr>)"

text \<open>
  The \<^verbatim>\<open>if\<close>/\<^verbatim>\<open>elif\<close> chain that turns a configured selection into a list of indices, for
  an axis of length \<open>n\<close>: as written for the batch and channel axes, and with the extra
  token \<^verbatim>\<open>'mid'\<close> for the z axis.
\<close>

fun select_indices :: "index_selection \<Rightarrow> nat \<Rightarrow> error + int list" where
  "select_indices (Token s) n =
     (if s = ''all'' then Inr (map int [0..<n]) else Inl NotImplementedError)"
| "select_indices (Indices xs) n = Inr xs"
| "select_indices (Index i) n = Inr [i]"
| "select_indices OtherSelection n = Inl NotImplementedError"

fun select_z_indices :: "index_selection \<Rightarrow> nat \<Rightarrow> error + int list" where
  "select_z_indices (Token s) n =
     (if s = ''all'' then Inr (map int [0..<n])
      else if s = ''mid'' then Inr [int (n div 2)]
      else Inl NotImplementedError)"
| "select_z_indices (Indices xs) n = Inr xs"
| "select_z_indices (Index i) n = Inr [i]"
| "select_z_indices OtherSelection n = Inl NotImplementedError"

text \<open>
  The entry of the comprehensions:
  \<^verbatim>\<open>self._tag_image(image, ...) if base_tag is not None else image\<close>.
\<close>

definition image_entry ::
  "string option \<Rightarrow> string option \<Rightarrow> ndarray \<Rightarrow> nat option \<Rightarrow> nat option \<Rightarrow> nat option \<Rightarrow> image_item"
where
  "image_entry base_tag prefix img instance_num channel_num slice_num =
     (case base_tag of
        Some bt \<Rightarrow> Tagged (tag_image img bt prefix instance_num channel_num slice_num)
      | None \<Rightarrow> Raw img)"

text \<open>The part of \<^verbatim>\<open>extract_images_from_batch\<close> after "batch really is a tensor from now on".\<close>

definition extract_images_from_tensor ::
  "config \<Rightarrow> tensor \<Rightarrow> string option \<Rightarrow> string option \<Rightarrow> error + image_item list"
where
  "extract_images_from_tensor cfg t base_tag prefix =
     (let batch_is_image_tensor = is_image_tensor t;
          batch_is_volume_tensor = is_volume_tensor t
      in if batch_is_volume_tensor = batch_is_image_tensor then Inl AssertionError
         else
           (let b = as_array t
            in (case select_indices (image_batch_indices cfg) (shape b ! 0) of
                  Inl e \<Rightarrow> Inl e
                | Inr batch_indices \<Rightarrow>
                    (case select_indices (image_channel_indices cfg) (shape b ! 1) of
                       Inl e \<Rightarrow> Inl e
                     | Inr channel_indices \<Rightarrow>
                         (if batch_is_image_tensor then
                            Inr [image_entry base_tag prefix img
                                   (Some instance_num) (Some channel_num) None.
                                 (instance_num, instance) \<leftarrow> enumerate 0 (iterate b),
                                 (channel_num, img) \<leftarrow> enumerate 0 (iterate instance),
                                 int instance_num \<in> set batch_indices
                                   \<and> int channel_num \<in> set channel_indices]
                          else
                            (case select_z_indices (volume_z_indices cfg) (shape b ! 2) of
                               Inl e \<Rightarrow> Inl e
                             | Inr z_indices \<Rightarrow>
                                 Inr [image_entry base_tag prefix img
                                        (Some instance_num) (Some channel_num) (Some slice_num).
                                      (instance_num, instance) \<leftarrow> enumerate 0 (iterate b),
                                      (channel_num, volume) \<leftarrow> enumerate 0 (iterate instance),
                                      (slice_num, img) \<leftarrow> enumerate 0 (iterate volume),
                                      int instance_num \<in> set batch_indices
                                        \<and> int channel_num \<in> set channel_indices
                                        \<and> int slice_num \<in> set z_indices]))))))"

text \<open>
  \<^verbatim>\<open>for batch_num, _batch in batch\<close> unpacks every element of the list into two names:
  the element is iterated and must yield exactly two items (\<^verbatim>\<open>ValueError\<close> otherwise;
  \<^verbatim>\<open>TypeError\<close> for a 0-dimensional tensor, which cannot be iterated).
\<close>

fun unpack_pair :: "batch \<Rightarrow> error + batch \<times> batch" where
  "unpack_pair (BList [a, b]) = Inr (a, b)"
| "unpack_pair (BList bs) = Inl ValueError"
| "unpack_pair (BTensor t) =
     (case shape (as_array t) of
        [] \<Rightarrow> Inl TypeError
      | n # ns \<Rightarrow>
          if n = 2 then Inr (BTensor (subtensor t 0), BTensor (subtensor t 1))
          else Inl ValueError)"

lemma unpack_pair_size: "unpack_pair e = Inr (a, b) \<Longrightarrow> size b \<le> size e"
  by (induction e rule: unpack_pair.induct) (auto split: list.splits if_splits)

text \<open>
  \<^verbatim>\<open>extract_images_from_batch\<close>. \<open>format_batch\<close> is the text that \<^verbatim>\<open>'{}'.format\<close> gives for
  a tensor or a list (torch's and Python's own printing). \<open>extract_images_from_list\<close> is
  the \<^verbatim>\<open>for\<close> loop of the list branch.
\<close>

function
  extract_images_from_batch ::
    "(batch \<Rightarrow> string) \<Rightarrow> config \<Rightarrow> batch \<Rightarrow> string option \<Rightarrow> string option
      \<Rightarrow> error + image_item list"
  and extract_images_from_list ::
    "(batch \<Rightarrow> string) \<Rightarrow> config \<Rightarrow> batch list \<Rightarrow> string option \<Rightarrow> error + image_item list"
where
  "extract_images_from_batch format_batch cfg b base_tag prefix =
     (case (if base_tag = None then assert_raise (prefix = None) ValueError else None) of
        Some e \<Rightarrow> Inl e
      | None \<Rightarrow>
          (case b of
             BList bs \<Rightarrow> extract_images_from_list format_batch cfg bs base_tag
           | BTensor t \<Rightarrow> extract_images_from_tensor cfg t base_tag prefix))"
| "extract_images_from_list format_batch cfg [] base_tag = Inr []"
| "extract_images_from_list format_batch cfg (e # es) base_tag =
     (case unpack_pair e of
        Inl err \<Rightarrow> Inl err
      | Inr (batch_num, b') \<Rightarrow>
          (case extract_images_from_batch format_batch cfg b' base_tag
                  (Some (''batch_'' @ format_batch batch_num)) of
             Inl err \<Rightarrow> Inl err
           | Inr images \<Rightarrow>
               (case extract_images_from_list format_batch cfg es base_tag of
                  Inl err \<Rightarrow> Inl err
                | Inr image_list \<Rightarrow> Inr (images @ image_list))))"
  by pat_completeness auto
termination
  by (relation "measure (\<lambda>x. case x of
                   Inl (f, c, b, bt, p) \<Rightarrow> 2 * size b + 1
                 | Inr (f, c, bs, bt) \<Rightarrow> 2 * size_list size bs + 2)")
     (auto dest: unpack_pair_size)

section \<open>Logging images and objects\<close>

definition add_image :: "logger \<Rightarrow> string \<Rightarrow> ndarray \<Rightarrow> int \<Rightarrow> logger" where
  "add_image self the_tag img step = add_call self (AddImage the_tag img step)"

text \<open>
  The loop of \<^verbatim>\<open>log_images\<close> over \<^verbatim>\<open>enumerate(images)\<close>. The variable \<^verbatim>\<open>tag\<close> is
  reassigned inside the loop, so the tag is passed on to the next round.
\<close>

fun log_images_loop ::
  "logger \<Rightarrow> string \<Rightarrow> (nat \<times> image_item) list \<Rightarrow> int \<Rightarrow> string \<Rightarrow> error option \<times> logger"
where
  "log_images_loop self the_tag [] step image_format = (None, self)"
| "log_images_loop self the_tag ((image_num, entry) # images) step image_format =
     (let (the_tag', img) =
            (case entry of
               Tagged ti \<Rightarrow> (tag ti, array ti)
             | Raw a \<Rightarrow> (the_tag @ ''/'' @ str_nat image_num, a))
      in case order_image_axes img image_format TENSORBOARDX_IMAGE_FORMAT of
           Inl e \<Rightarrow> (Some e, self)
         | Inr ordered \<Rightarrow>
             (case normalize_image ordered of
                Inl e \<Rightarrow> (Some e, self)
              | Inr normalized \<Rightarrow>
                  log_images_loop (add_image self the_tag' normalized step) the_tag' images
                    step image_format))"

definition log_images ::
  "logger \<Rightarrow> string \<Rightarrow> image_item list \<Rightarrow> int \<Rightarrow> string \<Rightarrow> error option \<times> logger"
where
  "log_images self the_tag images step image_format =
     (case assert_raise (upper image_format \<in> {''CHW'', ''HWC''}) ValueError of
        Some e \<Rightarrow> (Some e, self)
      | None \<Rightarrow> log_images_loop self the_tag (enumerate 0 images) step image_format)"

text \<open>
  Modelled from the spec: \<^verbatim>\<open>pyu.is_maybe_list_of\<close> (its file is not part of the sources)
  applied to \<^verbatim>\<open>tu.is_image_or_volume_tensor\<close>: the batch is such a tensor, or a list or
  tuple of such tensors.
\<close>

fun is_maybe_list_of_image_or_volume_tensor :: "batch \<Rightarrow> bool" where
  "is_maybe_list_of_image_or_volume_tensor (BTensor t) = is_image_or_volume_tensor t"
| "is_maybe_list_of_image_or_volume_tensor (BList bs) =
     list_all (\<lambda>b. case b of BTensor t \<Rightarrow> is_image_or_volume_tensor t | BList _ \<Rightarrow> False) bs"

text \<open>\<^verbatim>\<open>step or self.trainer.iteration_count\<close>: \<^verbatim>\<open>None\<close> and \<^verbatim>\<open>0\<close> are falsy.\<close>

definition step_or :: "int option \<Rightarrow> int \<Rightarrow> int" where
  "step_or step it = (case step of None \<Rightarrow> it | Some n \<Rightarrow> if n = 0 then it else n)"

definition log_image_or_volume_batch ::
  "(batch \<Rightarrow> string) \<Rightarrow> logger \<Rightarrow> string \<Rightarrow> batch \<Rightarrow> int option \<Rightarrow> error option \<times> logger"
where
  "log_image_or_volume_batch format_batch self the_tag b step =
     (if \<not> is_maybe_list_of_image_or_volume_tensor b then (Some AssertionError, self)
      else
        (let step' = step_or step (iteration_count self)
         in case extract_images_from_batch format_batch (config_of self) b (Some the_tag) None of
              Inl e \<Rightarrow> (Some e, self)
            | Inr image_list \<Rightarrow> log_images self the_tag image_list step' ''CHW''))"

text \<open>
  \<^verbatim>\<open>float(n)\<close> for a plain \<^verbatim>\<open>int\<close>. Python rounds the integer to the nearest double
  (53 significant bits, ties to the even neighbour) and raises \<^verbatim>\<open>OverflowError\<close> when
  the rounded magnitude reaches \<open>2 ^ 1024\<close>, which no double holds.
  \<open>bit_length\<close> is \<^verbatim>\<open>int.bit_length\<close>, \<open>round_to_double\<close> the rounding of a magnitude.
\<close>

fun bit_length :: "nat \<Rightarrow> nat" where
  "bit_length n = (if n = 0 then 0 else Suc (bit_length (n div 2)))"

declare bit_length.simps [simp del]

definition round_to_double :: "nat \<Rightarrow> nat" where
  "round_to_double m =
     (let l = bit_length m
      in if l \<le> 53 then m
         else
           (let e = l - 53;
                q = m div 2 ^ e;
                r = m mod 2 ^ e;
                h = 2 ^ (e - 1)
            in (if r > h \<or> (r = h \<and> odd q) then q + 1 else q) * 2 ^ e))"

definition py_float :: "int \<Rightarrow> error + real" where
  "py_float n =
     (let m = round_to_double (nat \<bar>n\<bar>)
      in if m \<ge> 2 ^ 1024 then Inl OverflowError
         else Inr (real_of_int (sgn n * int m)))"

text \<open>
  The objects \<^verbatim>\<open>log_object\<close> is given: a tensor, a plain \<^verbatim>\<open>float\<close> or \<^verbatim>\<open>int\<close>, a list or
  tuple of objects, or anything else.
\<close>

datatype pyobj =
    OTensor tensor
  | OFloat real
  | OInt int
  | OList "pyobj list"
  | OOther

text \<open>
  \<^verbatim>\<open>log_object\<close>; \<open>log_object_list\<close> is its loop over \<^verbatim>\<open>enumerate(object_)\<close>, which stops
  at the first exception.
\<close>

fun
  log_object ::
    "(batch \<Rightarrow> string) \<Rightarrow> logger \<Rightarrow> string \<Rightarrow> pyobj \<Rightarrow> bool \<Rightarrow> bool \<Rightarrow> bool
      \<Rightarrow> error option \<times> logger"
  and log_object_list ::
    "(batch \<Rightarrow> string) \<Rightarrow> logger \<Rightarrow> string \<Rightarrow> nat \<Rightarrow> pyobj list \<Rightarrow> bool \<Rightarrow> bool \<Rightarrow> bool
      \<Rightarrow> error option \<times> logger"
where
  "log_object format_batch self the_tag (OList objects)
      allow_scalar_logging allow_image_logging allow_histogram_logging =
     log_object_list format_batch self the_tag 0 objects
       allow_scalar_logging allow_image_logging allow_histogram_logging"
| "log_object format_batch self the_tag (OTensor t)
      allow_scalar_logging allow_image_logging allow_histogram_logging =
     (if is_scalar_tensor t \<and> allow_scalar_logging then
        (case unwrap_item t of
           Inl e \<Rightarrow> (Some e, self)
         | Inr v \<Rightarrow> (None, log_scalar self the_tag v (iteration_count self)))
      else if is_label_image_or_volume_tensor t \<and> allow_image_logging then
        log_image_or_volume_batch format_batch self the_tag (BTensor (add_channel_axis t))
          (Some (iteration_count self))
      else if is_image_or_volume_tensor t then
        (if allow_image_logging then
           log_image_or_volume_batch format_batch self the_tag (BTensor t)
             (Some (iteration_count self))
         else (None, self))
      else if is_vector_tensor t \<and> allow_histogram_logging then
        log_histogram self the_tag (as_array t) (iteration_count self)
      else (None, self\<lparr>warnings := warnings self @ [the_tag]\<rparr>))"
| "log_object format_batch self the_tag (OFloat x)
      allow_scalar_logging allow_image_logging allow_histogram_logging =
     (if allow_scalar_logging then (None, log_scalar self the_tag x (iteration_count self))
      else (None, self))"
| "log_object format_batch self the_tag (OInt n)
      allow_scalar_logging allow_image_logging allow_histogram_logging =
     (if allow_scalar_logging then
        (case py_float n of
           Inl e \<Rightarrow> (Some e, self)
         | Inr v \<Rightarrow> (None, log_scalar self the_tag v (iteration_count self)))
      else (None, self))"
| "log_object format_batch self the_tag OOther
      allow_scalar_logging allow_image_logging allow_histogram_logging = (None, self)"
| "log_object_list format_batch self the_tag object_num []
      allow_scalar_logging allow_image_logging allow_histogram_logging = (None, self)"
| "log_object_list format_batch self the_tag object_num (obj # objects)
      allow_scalar_logging allow_image_logging allow_histogram_logging =
     (case log_object format_batch self (the_tag @ ''_'' @ str_nat object_num) obj
             allow_scalar_logging allow_image_logging allow_histogram_logging of
        (Some e, self') \<Rightarrow> (Some e, self')
      | (None, self') \<Rightarrow>
          log_object_list format_batch self' the_tag (Suc object_num) objects
            allow_scalar_logging allow_image_logging allow_histogram_logging)"

section \<open>Properties of the observation registry\<close>

text \<open>
  C2, as stated, fails. Observing a key and then unobserving it does not always bring the
  registry back: a key that was already observed (here the default \<^verbatim>\<open>training_loss\<close>) is
  gone afterwards, because adding it again changed nothing and removing it removes it;
  and with the alias \<^verbatim>\<open>train\<close> the first call adds the key while the second raises
  \<^verbatim>\<open>NotImplementedError\<close>, so the key stays.
\<close>

theorem observe_then_unobserve_counterexample:
  "observe_then_unobserve (init 0) (PStr ''training_loss'') (PStr ''training'')
     = (None, (init 0)\<lparr>trainer_states_being_observed_while_training :=
                 {''training_error'', ''training_prediction'', ''training_inputs'',
                  ''training_target'', ''learning_rate''}\<rparr>)
   \<and> trainer_states_being_observed_while_training
        (snd (observe_then_unobserve (init 0) (PStr ''training_loss'') (PStr ''training'')))
      \<noteq> trainer_states_being_observed_while_training (init 0)
   \<and> observe_then_unobserve (init 0) (PStr ''x'') (PStr ''train'')
     = (Some NotImplementedError,
        (init 0)\<lparr>trainer_states_being_observed_while_training :=
           insert ''x'' (trainer_states_being_observed_while_training (init 0))\<rparr>)
   \<and> trainer_states_being_observed_while_training
        (snd (observe_then_unobserve (init 0) (PStr ''x'') (PStr ''train'')))
      \<noteq> trainer_states_being_observed_while_training (init 0)"
proof -
  let ?before = "trainer_states_being_observed_while_training (init 0)"
  let ?r1 = "observe_then_unobserve (init 0) (PStr ''training_loss'') (PStr ''training'')"
  let ?r2 = "observe_then_unobserve (init 0) (PStr ''x'') (PStr ''train'')"
  have r1: "?r1 = (None, (init 0)\<lparr>trainer_states_being_observed_while_training :=
                 {''training_error'', ''training_prediction'', ''training_inputs'',
                  ''training_target'', ''learning_rate''}\<rparr>)"
    by (simp add: observe_then_unobserve_def observe_state_def unobserve_state_def init_def
        assert_raise_def)
  have r2: "?r2 = (Some NotImplementedError,
        (init 0)\<lparr>trainer_states_being_observed_while_training := insert ''x'' ?before\<rparr>)"
    by (simp add: observe_then_unobserve_def observe_state_def unobserve_state_def init_def
        assert_raise_def)
  have "''training_loss'' \<in> ?before" by (simp add: init_def)
  moreover have "''training_loss'' \<notin> trainer_states_being_observed_while_training (snd ?r1)"
    by (simp add: r1)
  ultimately have d1: "trainer_states_being_observed_while_training (snd ?r1) \<noteq> ?before"
    by metis
  have "''x'' \<notin> ?before" by (simp add: init_def)
  moreover have "''x'' \<in> trainer_states_being_observed_while_training (snd ?r2)"
    by (simp add: r2)
  ultimately have d2: "trainer_states_being_observed_while_training (snd ?r2) \<noteq> ?before"
    by metis
  from r1 r2 d1 d2 show ?thesis by blast
qed

text \<open>
  C2, amended: for a key that is not yet observed in the phase, and the phase given as
  \<^verbatim>\<open>training\<close> or \<^verbatim>\<open>validating\<close>, \<^verbatim>\<open>observe_state\<close> followed by \<^verbatim>\<open>unobserve_state\<close>
  leaves the whole logger, both registries included, as it was before the first call.
  Both calls return when the key is a string; for any other key \<^verbatim>\<open>observe_state\<close>
  raises and nothing was added.
\<close>

theorem observe_then_unobserve_restores:
  assumes "(observe_while = PStr ''training''
              \<and> key \<notin> PStr ` trainer_states_being_observed_while_training self)
           \<or> (observe_while = PStr ''validating''
              \<and> key \<notin> PStr ` trainer_states_being_observed_while_validating self)"
  shows "snd (observe_then_unobserve self key observe_while) = self
         \<and> (fst (observe_then_unobserve self key observe_while) = None) = isinstance_str key"
proof (cases key)
  case (PStr k)
  with assms have
    "(observe_while = PStr ''training'' \<and> k \<notin> trainer_states_being_observed_while_training self)
     \<or> (observe_while = PStr ''validating''
         \<and> k \<notin> trainer_states_being_observed_while_validating self)"
    by blast
  with PStr show ?thesis
    by (auto simp add: observe_then_unobserve_def observe_state_def unobserve_state_def
        assert_raise_def)
next
  case PNone
  with assms show ?thesis
    by (auto simp add: observe_then_unobserve_def observe_state_def assert_raise_def)
next
  case (PInt n)
  with assms show ?thesis
    by (auto simp add: observe_then_unobserve_def observe_state_def assert_raise_def)
next
  case (PFloat x)
  with assms show ?thesis
    by (auto simp add: observe_then_unobserve_def observe_state_def assert_raise_def)
next
  case (PList vs)
  with assms show ?thesis
    by (auto simp add: observe_then_unobserve_def observe_state_def assert_raise_def)
qed

text \<open>C2, amended, at a concrete logger: a fresh key, observed while validating.\<close>

theorem observe_then_unobserve_restores_witness:
  "PStr ''gradient_norm'' \<notin> PStr ` trainer_states_being_observed_while_validating (init 5)
   \<and> observe_then_unobserve (init 5) (PStr ''gradient_norm'') (PStr ''validating'')
       = (None, init 5)"
proof -
  have fresh: "PStr ''gradient_norm'' \<notin> PStr ` trainer_states_being_observed_while_validating (init 5)"
    by (simp add: init_def)
  then have h: "(PStr ''validating'' = PStr ''training''
              \<and> PStr ''gradient_norm'' \<notin> PStr ` trainer_states_being_observed_while_training (init 5))
           \<or> (PStr ''validating'' = PStr ''validating''
              \<and> PStr ''gradient_norm'' \<notin> PStr ` trainer_states_being_observed_while_validating (init 5))"
    by blast
  from observe_then_unobserve_restores [OF h] fresh show ?thesis
    by (simp add: prod_eq_iff)
qed

text \<open>
  C9: a call of \<^verbatim>\<open>observe_state\<close> whose phase token is none of \<^verbatim>\<open>training\<close>,
  \<^verbatim>\<open>train\<close>, \<^verbatim>\<open>validating\<close>, \<^verbatim>\<open>validation\<close>, or whose key is not a string, raises
  \<^verbatim>\<open>ValueError\<close> or \<^verbatim>\<open>TypeError\<close> (the invalid-argument errors) and leaves the logger,
  and so both registries, unchanged.
\<close>

theorem observe_state_invalid_argument:
  assumes "observe_while \<notin> {PStr ''training'', PStr ''train'', PStr ''validating'', PStr ''validation''}
           \<or> \<not> isinstance_str key"
  shows "observe_state self key observe_while = (Some ValueError, self)
         \<or> observe_state self key observe_while = (Some TypeError, self)"
proof (cases "keyword_mapping_get observe_while")
  case (Inl e)
  then have "e = TypeError"
    by (cases observe_while) (auto)
  with Inl show ?thesis by (simp add: observe_state_def)
next
  case (Inr m)
  show ?thesis
  proof (cases m)
    case None
    with Inr show ?thesis by (simp add: observe_state_def assert_raise_def)
  next
    case (Some p)
    with Inr have "observe_while \<in> {PStr ''training'', PStr ''train'', PStr ''validating'', PStr ''validation''}"
      by (cases observe_while) (auto split: if_splits)
    with assms have "\<not> isinstance_str key" by blast
    with Inr Some show ?thesis by (simp add: observe_state_def assert_raise_def)
  qed
qed

text \<open>C9 at concrete calls: an integer key, and the unknown phase token \<^verbatim>\<open>testing\<close>.\<close>

theorem observe_state_invalid_argument_witness:
  "\<not> isinstance_str (PInt 3)
   \<and> observe_state (init 0) (PInt 3) (PStr ''training'') = (Some TypeError, init 0)
   \<and> PStr ''testing'' \<notin> {PStr ''training'', PStr ''train'', PStr ''validating'', PStr ''validation''}
   \<and> observe_state (init 0) (PStr ''loss'') (PStr ''testing'') = (Some ValueError, init 0)"
  using observe_state_invalid_argument [of "PStr ''training''" "PInt 3" "init 0"]
        observe_state_invalid_argument [of "PStr ''testing''" "PStr ''loss''" "init 0"]
  by (simp add: observe_state_def assert_raise_def)

text \<open>
  C10: \<^verbatim>\<open>unobserve_state\<close> does not accept the aliases. With the phase token \<^verbatim>\<open>train\<close> or
  \<^verbatim>\<open>validation\<close> it raises \<^verbatim>\<open>NotImplementedError\<close> for every key and leaves the logger
  unchanged, while \<^verbatim>\<open>observe_state\<close> with the same tokens adds a string key to the
  training and to the validating registry.
\<close>

theorem unobserve_state_rejects_aliases:
  "unobserve_state self key (PStr ''train'') = (Some NotImplementedError, self)
   \<and> unobserve_state self key (PStr ''validation'') = (Some NotImplementedError, self)
   \<and> observe_state self (PStr k) (PStr ''train'') =
       (None, self\<lparr>trainer_states_being_observed_while_training :=
                 insert k (trainer_states_being_observed_while_training self)\<rparr>)
   \<and> observe_state self (PStr k) (PStr ''validation'') =
       (None, self\<lparr>trainer_states_being_observed_while_validating :=
                 insert k (trainer_states_being_observed_while_validating self)\<rparr>)"
  by (simp add: unobserve_state_def observe_state_def assert_raise_def)

section \<open>Properties of pixel normalization\<close>

text \<open>
  C7: an image whose minimum is 0 and whose maximum is 1 is returned by
  \<^verbatim>\<open>_normalize_image\<close> as it is (over the reals, exactly).
\<close>

theorem normalize_image_normalized:
  assumes "amin img = Inr 0" and "amax img = Inr 1"
  shows "normalize_image img = Inr img"
  using assms by (simp add: normalize_image_def amax_def)

text \<open>C7 at a concrete 1 x 2 x 2 image with minimum 0 and maximum 1.\<close>

theorem normalize_image_normalized_witness:
  "amin \<lparr>shape = [1, 2, 2], data = [0, 1/2, 1, 1/4]\<rparr> = Inr 0
   \<and> amax \<lparr>shape = [1, 2, 2], data = [0, 1/2, 1, 1/4]\<rparr> = Inr 1
   \<and> normalize_image \<lparr>shape = [1, 2, 2], data = [0, 1/2, 1, 1/4]\<rparr>
       = Inr \<lparr>shape = [1, 2, 2], data = [0, 1/2, 1, 1/4]\<rparr>"
  using normalize_image_normalized [of "\<lparr>shape = [1, 2, 2], data = [0, 1/2, 1, 1/4]\<rparr>"]
  by (simp add: amin_def amax_def)

text \<open>
  C8, as stated, fails at an array without elements: all of its (no) pixels are zero, and
  \<^verbatim>\<open>image.min()\<close> raises \<^verbatim>\<open>ValueError\<close>.
\<close>

theorem normalize_image_empty_counterexample:
  "normalize_image \<lparr>shape = [1, 0, 0], data = []\<rparr> = Inl ValueError"
  by (simp add: normalize_image_def amin_def)

lemma fold_min_const: "\<forall>x\<in>set xs. x = (c::real) \<Longrightarrow> fold min xs c = c"
  by (induction xs) auto

lemma fold_max_const: "\<forall>x\<in>set xs. x = (c::real) \<Longrightarrow> fold max xs c = c"
  by (induction xs) auto

text \<open>
  C8, amended: for every all-zero image with at least one pixel, \<^verbatim>\<open>_normalize_image\<close>
  does not raise and returns the image itself, which is all-zero (the maximum is not
  positive, so nothing is divided).
\<close>

theorem normalize_image_all_zero:
  assumes "data img \<noteq> []" and "\<forall>x\<in>set (data img). x = 0"
  shows "normalize_image img = Inr img \<and> (\<forall>x\<in>set (data img). x = 0)"
proof -
  from assms obtain x xs where d: "data img = x # xs"
    by (cases "data img") auto
  with assms(2) have x: "x = 0" and xs: "\<forall>y\<in>set xs. y = 0" by auto
  have m: "amin img = Inr 0"
    using d x xs by (simp add: amin_def fold_min_const)
  have "amax img = Inr 0"
    using d x xs by (simp add: amax_def fold_max_const)
  with m have "normalize_image img = Inr img"
    by (simp add: normalize_image_def)
  with assms(2) show ?thesis by simp
qed

text \<open>C8, amended, at the 1 x 2 x 2 image of zeros.\<close>

theorem normalize_image_all_zero_witness:
  "data \<lparr>shape = [1, 2, 2], data = [0, 0, 0, 0]\<rparr> \<noteq> []
   \<and> set (data \<lparr>shape = [1, 2, 2], data = [0, 0, 0, 0]\<rparr>) = {0}
   \<and> normalize_image \<lparr>shape = [1, 2, 2], data = [0, 0, 0, 0]\<rparr>
       = Inr \<lparr>shape = [1, 2, 2], data = [0, 0, 0, 0]\<rparr>"
  using normalize_image_all_zero [of "\<lparr>shape = [1, 2, 2], data = [0, 0, 0, 0]\<rparr>"]
  by simp

section \<open>Properties of axis reordering\<close>

subsection \<open>Index tuples and offsets\<close>

lemma length_indices: "length (indices sh) = prod_list sh"
  by (induction sh) (simp_all add: length_concat comp_def sum_list_triv)

lemma concat_blocks:
  "concat (map (\<lambda>i. map (\<lambda>m. i * p + m) [0..<p]) [0..<n]) = [0..<n * p]"
proof (induction n)
  case 0
  then show ?case by simp
next
  case (Suc n)
  have "map (\<lambda>m. n * p + m) [0..<p] = [n * p..<n * p + p]"
    by (simp add: map_add_upt add.commute)
  moreover have "[0..<n * p] @ [n * p..<n * p + p] = [0..<n * p + p]"
    by (metis le_add1 upt_add_eq_append zero_le)
  ultimately show ?case using Suc by (simp add: add.commute)
qed

lemma offset_indices: "map (offset sh) (indices sh) = [0..<prod_list sh]"
proof (induction sh)
  case Nil
  then show ?case by simp
next
  case (Cons n ns)
  have "map (offset (n # ns)) (indices (n # ns))
        = concat (map (\<lambda>i. map (\<lambda>r. i * prod_list ns + offset ns r) (indices ns)) [0..<n])"
    by (simp add: map_concat comp_def)
  also have "\<dots> = concat (map (\<lambda>i. map (\<lambda>m. i * prod_list ns + m) (map (offset ns) (indices ns))) [0..<n])"
    by (simp add: comp_def)
  also have "\<dots> = [0..<n * prod_list ns]"
    unfolding Cons.IH by (rule concat_blocks)
  finally show ?case by simp
qed

lemma nth_offset_indices:
  assumes "k \<in> set (indices sh)"
  shows "offset sh k < prod_list sh \<and> indices sh ! offset sh k = k"
proof -
  from assms obtain m where m: "m < length (indices sh)" "indices sh ! m = k"
    by (auto simp: in_set_conv_nth)
  have "offset sh k = map (offset sh) (indices sh) ! m"
    using m by simp
  also have "\<dots> = m"
    using m by (simp add: offset_indices length_indices)
  finally show ?thesis using m by (simp add: length_indices)
qed

lemma indices_Cons_iff:
  "k \<in> set (indices (n # ns)) \<longleftrightarrow> (\<exists>i r. k = i # r \<and> i < n \<and> r \<in> set (indices ns))"
  by auto

lemma indices3:
  "k \<in> set (indices [a, b, c]) \<longleftrightarrow> (\<exists>i j l. k = [i, j, l] \<and> i < a \<and> j < b \<and> l < c)"
proof -
  have "r \<in> set (indices [c]) \<longleftrightarrow> (\<exists>l. r = [l] \<and> l < c)" for r
    by auto
  then have "r \<in> set (indices [b, c]) \<longleftrightarrow> (\<exists>j l. r = [j, l] \<and> j < b \<and> l < c)" for r
    unfolding indices_Cons_iff [of r b] by blast
  then show ?thesis
    unfolding indices_Cons_iff [of k a] by blast
qed

lemma moveaxis_0_2:
  assumes "shape a = [C, H, W]"
  shows "moveaxis a 0 2 =
     \<lparr>shape = [H, W, C],
      data = map (\<lambda>j. data a ! offset [C, H, W] [j ! 2, j ! 0, j ! 1]) (indices [H, W, C])\<rparr>"
proof -
  have order: "take 2 (filter (\<lambda>n. n \<noteq> 0) [0..<ndim a]) @ [0] @ drop 2 (filter (\<lambda>n. n \<noteq> 0) [0..<ndim a])
               = [1, 2, 0]"
    using assms by (simp add: ndim_def upt_rec)
  have pos: "map (\<lambda>p. j ! position [1, 2, 0] p) [0..<ndim a] = [j ! 2, j ! 0, j ! 1]" for j :: "nat list"
    using assms by (simp add: ndim_def upt_rec position_def numeral_2_eq_2)
  show ?thesis
    unfolding moveaxis_def Let_def order transpose_axes_def pos
    using assms by (simp del: indices.simps offset.simps)
qed

lemma moveaxis_2_0:
  assumes "shape a = [H, W, C]"
  shows "moveaxis a 2 0 =
     \<lparr>shape = [C, H, W],
      data = map (\<lambda>k. data a ! offset [H, W, C] [k ! 1, k ! 2, k ! 0]) (indices [C, H, W])\<rparr>"
proof -
  have order: "take 0 (filter (\<lambda>n. n \<noteq> 2) [0..<ndim a]) @ [2] @ drop 0 (filter (\<lambda>n. n \<noteq> 2) [0..<ndim a])
               = [2, 0, 1]"
    using assms by (simp add: ndim_def upt_rec)
  have pos: "map (\<lambda>p. k ! position [2, 0, 1] p) [0..<ndim a] = [k ! 1, k ! 2, k ! 0]" for k :: "nat list"
    using assms by (simp add: ndim_def upt_rec position_def numeral_2_eq_2)
  show ?thesis
    unfolding moveaxis_def Let_def order transpose_axes_def pos
    using assms by (simp del: indices.simps offset.simps)
qed

lemma moveaxis_round_trip:
  assumes sh: "shape a = [C, H, W]" and wf: "wellformed a"
  shows "moveaxis (moveaxis a 0 2) 2 0 = a"
proof -
  let ?F = "\<lambda>j. data a ! offset [C, H, W] [j ! 2, j ! 0, j ! 1]"
  let ?a1 = "moveaxis a 0 2"
  have a1: "?a1 = \<lparr>shape = [H, W, C], data = map ?F (indices [H, W, C])\<rparr>"
    by (rule moveaxis_0_2 [OF sh])
  have sh1: "shape ?a1 = [H, W, C]" by (simp add: a1 del: indices.simps)
  have d1: "data ?a1 = map ?F (indices [H, W, C])" by (simp add: a1 del: indices.simps)
  have a2: "moveaxis ?a1 2 0 =
     \<lparr>shape = [C, H, W],
      data = map (\<lambda>k. data ?a1 ! offset [H, W, C] [k ! 1, k ! 2, k ! 0]) (indices [C, H, W])\<rparr>"
    by (rule moveaxis_2_0 [OF sh1])
  have pt: "data ?a1 ! offset [H, W, C] [k ! 1, k ! 2, k ! 0] = data a ! offset [C, H, W] k"
    if "k \<in> set (indices [C, H, W])" for k
  proof -
    from that obtain c h w where k: "k = [c, h, w]" "c < C" "h < H" "w < W"
      unfolding indices3 by blast
    then have "[h, w, c] \<in> set (indices [H, W, C])"
      unfolding indices3 by blast
    from nth_offset_indices [OF this]
    have lt: "offset [H, W, C] [h, w, c] < length (indices [H, W, C])"
      and nth: "indices [H, W, C] ! offset [H, W, C] [h, w, c] = [h, w, c]"
      unfolding length_indices by blast+
    have "data ?a1 ! offset [H, W, C] [h, w, c] = ?F [h, w, c]"
      unfolding d1 nth_map [OF lt] nth ..
    also have "\<dots> = data a ! offset [C, H, W] [c, h, w]" by simp
    finally show ?thesis using k by simp
  qed
  have "map (\<lambda>k. data ?a1 ! offset [H, W, C] [k ! 1, k ! 2, k ! 0]) (indices [C, H, W])
        = map (\<lambda>k. data a ! offset [C, H, W] k) (indices [C, H, W])"
    by (rule map_cong [OF refl pt])
  also have "\<dots> = map ((!) (data a)) (map (offset [C, H, W]) (indices [C, H, W]))"
    by (simp add: comp_def del: indices.simps offset.simps)
  also have "\<dots> = map ((!) (data a)) [0..<length (data a)]"
    using wf sh unfolding offset_indices by (simp add: wellformed_def)
  also have "\<dots> = data a"
    by (rule map_nth)
  finally have "data (moveaxis ?a1 2 0) = data a"
    unfolding a2 by (simp del: indices.simps offset.simps)
  moreover have "shape (moveaxis ?a1 2 0) = shape a"
    unfolding a2 by (simp add: sh del: indices.simps)
  ultimately show ?thesis by simp
qed

subsection \<open>The branches of the reordering\<close>

lemma upper_CHW: "upper ''CHW'' = ''CHW''"
  by (simp add: upper_def upper_char_def)

lemma upper_HWC: "upper ''HWC'' = ''HWC''"
  by (simp add: upper_def upper_char_def)

text \<open>
  C1 fails on the code: the request to bring a 3-dimensional \<^verbatim>\<open>CHW\<close> image into \<^verbatim>\<open>HWC\<close>
  format raises \<^verbatim>\<open>NotImplementedError\<close>, so there is nothing to convert back. The branch
  that would move the channel axis compares the target format with the misspelt token
  \<^verbatim>\<open>HCW\<close>, under the comment "We have a CHW image, but need HWC". Here at a 1 x 2 x 2
  image.
\<close>

theorem order_image_axes_chw_to_hwc_fails:
  "order_image_axes \<lparr>shape = [1, 2, 2], data = [1, 2, 3, 4]\<rparr> ''CHW'' ''HWC''
     = Inl NotImplementedError"
  by (simp add: order_image_axes_def upper_CHW ndim_def)

text \<open>The same for every 3-dimensional image.\<close>

lemma order_image_axes_chw_hwc_raises:
  "ndim img = 3 \<Longrightarrow> order_image_axes img ''CHW'' ''HWC'' = Inl NotImplementedError"
  by (simp add: order_image_axes_def upper_CHW)

text \<open>
  The round trip that C1 describes is what the two \<^verbatim>\<open>moveaxis\<close> calls compute: asked
  with the misspelt token, the first call moves the channel axis to the end, and the
  second call brings the result back to the original array.
\<close>

lemma order_image_axes_round_trip_misspelt:
  assumes "ndim img = 3" and "wellformed img"
  shows "order_image_axes img ''CHW'' ''HCW'' = Inr (moveaxis img 0 2)
         \<and> order_image_axes (moveaxis img 0 2) ''HWC'' ''CHW'' = Inr img"
proof -
  from assms(1) obtain C H W where sh: "shape img = [C, H, W]"
    unfolding ndim_def
    by (metis length_0_conv length_Suc_conv numeral_3_eq_3)
  have "ndim (moveaxis img 0 2) = 3"
    unfolding moveaxis_0_2 [OF sh] by (simp add: ndim_def del: indices.simps)
  moreover have "moveaxis (moveaxis img 0 2) 2 0 = img"
    by (rule moveaxis_round_trip [OF sh assms(2)])
  ultimately show ?thesis
    using assms(1) by (simp add: order_image_axes_def upper_CHW upper_HWC)
qed

section \<open>Properties of the image extractor\<close>

subsection \<open>The comprehensions\<close>

lemma enumerate_map_upt: "enumerate 0 (map f [0..<n]) = map (\<lambda>i. (i, f i)) [0..<n]"
  by (simp add: enumerate_eq_zip zip_map2 zip_same_conv_map)

lemma iterate_Cons: "shape a = n # ns \<Longrightarrow> iterate a = map (subarray a) [0..<n]"
  by (simp add: iterate_def)

lemma shape_subarray: "shape (subarray a i) = tl (shape a)"
  by (simp add: subarray_def Let_def)

lemma enumerate_iterate:
  "shape a = n # ns \<Longrightarrow> enumerate 0 (iterate a) = map (\<lambda>i. (i, subarray a i)) [0..<n]"
  by (simp add: iterate_Cons enumerate_map_upt)

lemma concat_map_filter_all:
  assumes "\<And>i. i < n \<Longrightarrow> P i"
  shows "concat (map (\<lambda>i. if P i then [f i] else []) [0..<n]) = map f [0..<n]"
proof -
  have eq: "map (\<lambda>i. if P i then [f i] else []) [0..<n] = map (\<lambda>i. [f i]) [0..<n]"
    using assms by simp
  show ?thesis unfolding eq by simp
qed

lemma concat_map_filter_one:
  assumes "m < n"
  shows "concat (map (\<lambda>i. if i = m then [f i] else []) [0..<n]) = [f m]"
  using assms
proof (induction n)
  case 0
  then show ?case by simp
next
  case (Suc n)
  show ?case
  proof (cases "m = n")
    case True
    have "concat (map (\<lambda>i. if i = m then [f i] else []) [0..<n]) = []"
      using True by simp
    with True show ?thesis by simp
  next
    case False
    with Suc show ?thesis by simp
  qed
qed

lemma concat_map_product:
  "concat (map (\<lambda>i. map (f i) ys) xs) = map (\<lambda>(i, c). f i c) (List.product xs ys)"
  by (induction xs) simp_all

lemma length_concat_map_upt:
  "length (concat (map (\<lambda>i. map (f i) [0..<m]) [0..<n])) = n * m"
  by (induction n) simp_all

lemma image_comprehension_all:
  assumes "shape b = N # C # rest"
  shows "[E img instance_num channel_num.
            (instance_num, instance) \<leftarrow> enumerate 0 (iterate b),
            (channel_num, img) \<leftarrow> enumerate 0 (iterate instance),
            int instance_num \<in> set (map int [0..<N]) \<and> int channel_num \<in> set (map int [0..<C])]
         = concat (map (\<lambda>i. map (\<lambda>c. E (subarray (subarray b i) c) i c) [0..<C]) [0..<N])"
proof -
  have inner: "\<And>i. i < N \<Longrightarrow>
      concat (map (\<lambda>(channel_num, img).
                if int i \<in> set (map int [0..<N]) \<and> int channel_num \<in> set (map int [0..<C])
                then [E img i channel_num] else [])
              (enumerate 0 (iterate (subarray b i))))
      = map (\<lambda>c. E (subarray (subarray b i) c) i c) [0..<C]"
  proof -
    fix i assume i: "i < N"
    have sh: "shape (subarray b i) = C # rest"
      using assms by (simp add: shape_subarray)
    have "concat (map (\<lambda>c. if int i \<in> set (map int [0..<N]) \<and> int c \<in> set (map int [0..<C])
                then [E (subarray (subarray b i) c) i c] else []) [0..<C])
          = map (\<lambda>c. E (subarray (subarray b i) c) i c) [0..<C]"
      using i by (intro concat_map_filter_all) simp
    then show "concat (map (\<lambda>(channel_num, img).
                if int i \<in> set (map int [0..<N]) \<and> int channel_num \<in> set (map int [0..<C])
                then [E img i channel_num] else [])
              (enumerate 0 (iterate (subarray b i))))
      = map (\<lambda>c. E (subarray (subarray b i) c) i c) [0..<C]"
      by (simp add: enumerate_iterate [OF sh] comp_def)
  qed
  have "map (\<lambda>(instance_num, instance).
               concat (map (\<lambda>(channel_num, img).
                  if int instance_num \<in> set (map int [0..<N]) \<and> int channel_num \<in> set (map int [0..<C])
                  then [E img instance_num channel_num] else [])
                (enumerate 0 (iterate instance))))
            (enumerate 0 (iterate b))
        = map (\<lambda>i. map (\<lambda>c. E (subarray (subarray b i) c) i c) [0..<C]) [0..<N]"
    using inner by (simp add: enumerate_iterate [OF assms] comp_def)
  then show ?thesis by simp
qed

lemma volume_comprehension_mid:
  assumes "shape b = N # C # Z # rest" and "0 < Z"
  shows "[E img instance_num channel_num slice_num.
            (instance_num, instance) \<leftarrow> enumerate 0 (iterate b),
            (channel_num, volume) \<leftarrow> enumerate 0 (iterate instance),
            (slice_num, img) \<leftarrow> enumerate 0 (iterate volume),
            int instance_num \<in> set (map int [0..<N]) \<and> int channel_num \<in> set (map int [0..<C])
              \<and> int slice_num \<in> set [int (Z div 2)]]
         = concat (map (\<lambda>i. map (\<lambda>c. E (subarray (subarray (subarray b i) c) (Z div 2)) i c (Z div 2))
                                [0..<C]) [0..<N])"
proof -
  let ?m = "Z div 2"
  have m: "?m < Z" using assms(2) by simp
  have slices: "\<And>i c. i < N \<Longrightarrow> c < C \<Longrightarrow>
      concat (map (\<lambda>(slice_num, img).
                if int i \<in> set (map int [0..<N]) \<and> int c \<in> set (map int [0..<C])
                   \<and> int slice_num \<in> set [int ?m]
                then [E img i c slice_num] else [])
              (enumerate 0 (iterate (subarray (subarray b i) c))))
      = [E (subarray (subarray (subarray b i) c) ?m) i c ?m]"
  proof -
    fix i c assume ic: "i < N" "c < C"
    have sh: "shape (subarray (subarray b i) c) = Z # rest"
      using assms(1) by (simp add: shape_subarray)
    have "concat (map (\<lambda>s. if s = ?m then [E (subarray (subarray (subarray b i) c) s) i c s] else [])
                   [0..<Z])
          = [E (subarray (subarray (subarray b i) c) ?m) i c ?m]"
      using m by (rule concat_map_filter_one)
    then show "concat (map (\<lambda>(slice_num, img).
                if int i \<in> set (map int [0..<N]) \<and> int c \<in> set (map int [0..<C])
                   \<and> int slice_num \<in> set [int ?m]
                then [E img i c slice_num] else [])
              (enumerate 0 (iterate (subarray (subarray b i) c))))
      = [E (subarray (subarray (subarray b i) c) ?m) i c ?m]"
      using ic by (simp add: enumerate_iterate [OF sh] comp_def)
  qed
  have channels: "\<And>i. i < N \<Longrightarrow>
      concat (map (\<lambda>(channel_num, volume).
                concat (map (\<lambda>(slice_num, img).
                  if int i \<in> set (map int [0..<N]) \<and> int channel_num \<in> set (map int [0..<C])
                     \<and> int slice_num \<in> set [int ?m]
                  then [E img i channel_num slice_num] else [])
                (enumerate 0 (iterate volume))))
              (enumerate 0 (iterate (subarray b i))))
      = map (\<lambda>c. E (subarray (subarray (subarray b i) c) ?m) i c ?m) [0..<C]"
  proof -
    fix i assume i: "i < N"
    have sh: "shape (subarray b i) = C # Z # rest"
      using assms(1) by (simp add: shape_subarray)
    have "map (\<lambda>(channel_num, volume).
                concat (map (\<lambda>(slice_num, img).
                  if int i \<in> set (map int [0..<N]) \<and> int channel_num \<in> set (map int [0..<C])
                     \<and> int slice_num \<in> set [int ?m]
                  then [E img i channel_num slice_num] else [])
                (enumerate 0 (iterate volume))))
              (enumerate 0 (iterate (subarray b i)))
          = map (\<lambda>c. [E (subarray (subarray (subarray b i) c) ?m) i c ?m]) [0..<C]"
      using slices [OF i] by (simp add: enumerate_iterate [OF sh] comp_def)
    then show "concat (map (\<lambda>(channel_num, volume).
                concat (map (\<lambda>(slice_num, img).
                  if int i \<in> set (map int [0..<N]) \<and> int channel_num \<in> set (map int [0..<C])
                     \<and> int slice_num \<in> set [int ?m]
                  then [E img i channel_num slice_num] else [])
                (enumerate 0 (iterate volume))))
              (enumerate 0 (iterate (subarray b i))))
      = map (\<lambda>c. E (subarray (subarray (subarray b i) c) ?m) i c ?m) [0..<C]"
      by (simp only: concat_map_singleton)
  qed
  have "map (\<lambda>(instance_num, instance).
          concat (map (\<lambda>(channel_num, volume).
                concat (map (\<lambda>(slice_num, img).
                  if int instance_num \<in> set (map int [0..<N]) \<and> int channel_num \<in> set (map int [0..<C])
                     \<and> int slice_num \<in> set [int ?m]
                  then [E img instance_num channel_num slice_num] else [])
                (enumerate 0 (iterate volume))))
              (enumerate 0 (iterate instance))))
          (enumerate 0 (iterate b))
        = map (\<lambda>i. map (\<lambda>c. E (subarray (subarray (subarray b i) c) ?m) i c ?m) [0..<C]) [0..<N]"
    using channels by (simp add: enumerate_iterate [OF assms(1)] comp_def)
  then show ?thesis by simp
qed

subsection \<open>Tags\<close>

lemma digit_char_not_slash: "d < 10 \<Longrightarrow> digit_char d \<noteq> CHR ''/''"
proof -
  assume "d < 10"
  then have "digit_char d \<in> set ''0123456789''"
    unfolding digit_char_def by (intro nth_mem) simp
  then show ?thesis by auto
qed

lemma digit_char_inj: "d < 10 \<Longrightarrow> e < 10 \<Longrightarrow> digit_char d = digit_char e \<Longrightarrow> d = e"
proof -
  assume a: "d < 10" "e < 10" "digit_char d = digit_char e"
  have "distinct ''0123456789''" by simp
  with a show ?thesis
    unfolding digit_char_def by (simp add: nth_eq_iff_index_eq)
qed

lemma str_nat_not_empty: "str_nat n \<noteq> []"
  by (subst str_nat.simps) simp

lemma slash_not_in_str_nat: "CHR ''/'' \<notin> set (str_nat n)"
proof (induction n rule: str_nat.induct)
  case (1 n)
  show ?case
  proof (cases "n < 10")
    case True
    then show ?thesis
      using digit_char_not_slash [of n] by (subst str_nat.simps) auto
  next
    case False
    then show ?thesis
      using 1 digit_char_not_slash [of "n mod 10"] by (subst str_nat.simps) auto
  qed
qed

lemma str_nat_inj: "str_nat m = str_nat n \<Longrightarrow> m = n"
proof (induction m arbitrary: n rule: str_nat.induct)
  case (1 m)
  show ?case
  proof (cases "m < 10")
    case m: True
    show ?thesis
    proof (cases "n < 10")
      case True
      with m "1.prems" show ?thesis
        by (simp add: str_nat.simps [of m] str_nat.simps [of n] digit_char_inj)
    next
      case False
      with m "1.prems" show ?thesis
        using str_nat_not_empty [of "n div 10"]
        by (simp add: str_nat.simps [of m] str_nat.simps [of n] Cons_eq_append_conv)
    qed
  next
    case m: False
    show ?thesis
    proof (cases "n < 10")
      case True
      with m "1.prems" show ?thesis
        using str_nat_not_empty [of "m div 10"]
        by (simp add: str_nat.simps [of m] str_nat.simps [of n] append_eq_Cons_conv)
    next
      case False
      with m "1.prems" have eq: "str_nat (m div 10) = str_nat (n div 10)"
        and d: "digit_char (m mod 10) = digit_char (n mod 10)"
        by (simp_all add: str_nat.simps [of m] str_nat.simps [of n])
      from "1.IH" [OF m eq] have "m div 10 = n div 10" .
      moreover from d have "m mod 10 = n mod 10"
        by (intro digit_char_inj) simp_all
      ultimately show ?thesis
        by (metis div_mult_mod_eq)
    qed
  qed
qed

lemma split_at_slash:
  assumes "CHR ''/'' \<notin> set xs" and "CHR ''/'' \<notin> set ys"
    and "xs @ CHR ''/'' # r = ys @ CHR ''/'' # r'"
  shows "xs = ys \<and> r = r'"
  using assms
proof (induction xs arbitrary: ys)
  case Nil
  then show ?case by (cases ys) auto
next
  case (Cons x xs)
  then show ?case by (cases ys) auto
qed

lemma instance_channel_tag_inj:
  assumes "p @ ''/instance_'' @ str_nat i @ ''/channel_'' @ str_nat c
           = p @ ''/instance_'' @ str_nat i' @ ''/channel_'' @ str_nat c'"
  shows "i = i' \<and> c = c'"
proof -
  from assms have "str_nat i @ CHR ''/'' # (''channel_'' @ str_nat c)
                   = str_nat i' @ CHR ''/'' # (''channel_'' @ str_nat c')"
    by simp
  then have "str_nat i = str_nat i' \<and> ''channel_'' @ str_nat c = ''channel_'' @ str_nat c'"
    by (intro split_at_slash slash_not_in_str_nat)
  then show ?thesis by (simp add: str_nat_inj)
qed

lemma tag_of_tag_image:
  "tag (tag_image img base_tag prefix (Some i) (Some c) None)
   = (case prefix of None \<Rightarrow> base_tag | Some p \<Rightarrow> base_tag @ ''/'' @ p)
       @ ''/instance_'' @ str_nat i @ ''/channel_'' @ str_nat c"
  by (simp add: tag_image_def Let_def split: option.splits)

subsection \<open>A list of batches\<close>

text \<open>
  C3 fails on the code: the loop of the list branch is written
  \<^verbatim>\<open>for batch_num, _batch in batch\<close>, without \<^verbatim>\<open>enumerate\<close>, so every sub-batch is itself
  unpacked into two names. A list holding one image batch of shape (1, 1, 1, 1) raises
  \<^verbatim>\<open>ValueError\<close> instead of giving that batch's image under the prefix \<^verbatim>\<open>batch_0\<close>.
\<close>

theorem extract_images_from_list_fails:
  "extract_images_from_batch (\<lambda>b. []) (config_of (init 0))
     (BList [BTensor \<lparr>tensor_type = FloatTensor, as_array = \<lparr>shape = [1, 1, 1, 1], data = [0]\<rparr>\<rparr>])
     (Some ''img'') None = Inl ValueError"
  by (simp add: assert_raise_def)

text \<open>
  No list that starts with an image batch is extracted: with other than two samples the
  unpacking fails, and with two samples the second sample, which has three axes, is taken
  for the batch.
\<close>

lemma extract_images_from_list_of_image_tensors_raises:
  assumes "is_image_tensor t"
  shows "\<exists>e. extract_images_from_batch format_batch cfg (BList (BTensor t # bs)) base_tag prefix
              = Inl e"
proof (cases "base_tag = None \<and> prefix \<noteq> None")
  case True
  then show ?thesis by (auto simp add: assert_raise_def)
next
  case ok: False
  then have pre: "(if base_tag = None then assert_raise (prefix = None) ValueError else None) = None"
    by (auto simp add: assert_raise_def)
  from assms obtain n ns where sh: "shape (as_array t) = n # ns" and ns: "length ns = 3"
    unfolding is_image_tensor_def ndim_def
    by (cases "shape (as_array t)") auto
  show ?thesis
  proof (cases "n = 2")
    case False
    then show ?thesis using sh by (simp add: pre)
  next
    case True
    let ?s = "subtensor t 1"
    have nd: "ndim (as_array ?s) = 3"
      using sh ns by (simp add: subtensor_def subarray_def ndim_def Let_def)
    then have "extract_images_from_tensor cfg ?s base_tag p = Inl AssertionError" for p
      by (simp add: extract_images_from_tensor_def is_image_tensor_def is_volume_tensor_def)
    then have "\<exists>e. extract_images_from_batch format_batch cfg (BTensor ?s) base_tag (Some p) = Inl e"
      for p
      by (cases base_tag) (simp_all add: assert_raise_def)
    then obtain e where
      "extract_images_from_batch format_batch cfg (BTensor ?s) base_tag
         (Some (''batch_'' @ format_batch (BTensor (subtensor t 0)))) = Inl e"
      by blast
    then show ?thesis using sh True
      by (simp add: pre del: extract_images_from_batch.simps)
         (simp add: pre)
  qed
qed

subsection \<open>Image batches\<close>

text \<open>
  C4: for an image batch of shape (N, C, H, W), with the batch and channel selections
  \<^verbatim>\<open>'all'\<close> and a base tag, \<^verbatim>\<open>extract_images_from_batch\<close> returns N * C tagged images,
  one for every pair of an instance and a channel, and no two of them have the same tag.
\<close>

theorem extract_images_all_indices:
  assumes "shape (as_array t) = [N, C, H, W]"
    and "image_batch_indices cfg = Token ''all''"
    and "image_channel_indices cfg = Token ''all''"
  shows "\<exists>images.
           extract_images_from_batch format_batch cfg (BTensor t) (Some base_tag) prefix
             = Inr (map Tagged images)
           \<and> images = [tag_image (subarray (subarray (as_array t) i) c) base_tag prefix
                          (Some i) (Some c) None. i \<leftarrow> [0..<N], c \<leftarrow> [0..<C]]
           \<and> length images = N * C
           \<and> distinct (map tag images)"
proof -
  let ?b = "as_array t"
  let ?T = "\<lambda>i c. tag_image (subarray (subarray ?b i) c) base_tag prefix (Some i) (Some c) None"
  let ?images = "concat (map (\<lambda>i. map (?T i) [0..<C]) [0..<N])"
  have img: "is_image_tensor t" and vol: "\<not> is_volume_tensor t"
    using assms(1) by (simp_all add: is_image_tensor_def is_volume_tensor_def ndim_def)
  have sh: "shape ?b = N # C # [H, W]" using assms(1) by simp
  have "extract_images_from_batch format_batch cfg (BTensor t) (Some base_tag) prefix
        = Inr (concat (map (\<lambda>i. map (\<lambda>c. image_entry (Some base_tag) prefix
                 (subarray (subarray ?b i) c) (Some i) (Some c) None) [0..<C]) [0..<N]))"
    using img vol assms(2,3)
      image_comprehension_all [OF sh,
        of "\<lambda>img i c. image_entry (Some base_tag) prefix img (Some i) (Some c) None"]
    by (simp add: extract_images_from_tensor_def Let_def assms(1))
  also have "\<dots> = Inr (map Tagged ?images)"
    by (simp add: image_entry_def map_concat comp_def)
  finally have res: "extract_images_from_batch format_batch cfg (BTensor t) (Some base_tag) prefix
        = Inr (map Tagged ?images)" .
  have len: "length ?images = N * C"
    by (rule length_concat_map_upt)
  have "map tag ?images
        = map (\<lambda>(i, c). tag (?T i c)) (List.product [0..<N] [0..<C])"
    by (simp add: map_concat comp_def concat_map_product)
  moreover have "distinct (map (\<lambda>(i, c). tag (?T i c)) (List.product [0..<N] [0..<C]))"
  proof (rule iffD2 [OF distinct_map], intro conjI)
    show "distinct (List.product [0..<N] [0..<C])"
      by (simp add: distinct_product)
    show "inj_on (\<lambda>(i, c). tag (?T i c)) (set (List.product [0..<N] [0..<C]))"
    proof (rule inj_onI)
      fix x y :: "nat \<times> nat"
      assume eq: "(case x of (i, c) \<Rightarrow> tag (?T i c)) = (case y of (i, c) \<Rightarrow> tag (?T i c))"
      obtain i c where x: "x = (i, c)" by (cases x)
      obtain i' c' where y: "y = (i', c')" by (cases y)
      let ?p = "case prefix of None \<Rightarrow> base_tag | Some p \<Rightarrow> base_tag @ ''/'' @ p"
      from eq x y
      have "?p @ ''/instance_'' @ str_nat i @ ''/channel_'' @ str_nat c
            = ?p @ ''/instance_'' @ str_nat i' @ ''/channel_'' @ str_nat c'"
        by (simp only: tag_of_tag_image prod.case)
      then have "i = i' \<and> c = c'" by (rule instance_channel_tag_inj)
      with x y show "x = y" by simp
    qed
  qed
  ultimately have "distinct (map tag ?images)" by simp
  with res len show ?thesis by simp
qed

text \<open>C4 at a batch of two one-channel 1 x 1 images.\<close>

theorem extract_images_all_indices_witness:
  "shape (as_array \<lparr>tensor_type = FloatTensor, as_array = \<lparr>shape = [2, 1, 1, 1], data = [1, 2]\<rparr>\<rparr>)
     = [2, 1, 1, 1]
   \<and> image_batch_indices (config_of (init 0)) = Token ''all''
   \<and> image_channel_indices (config_of (init 0)) = Token ''all''
   \<and> extract_images_from_batch (\<lambda>b. []) (config_of (init 0))
        (BTensor \<lparr>tensor_type = FloatTensor, as_array = \<lparr>shape = [2, 1, 1, 1], data = [1, 2]\<rparr>\<rparr>)
        (Some ''img'') None
      = Inr [Tagged \<lparr>array = \<lparr>shape = [1, 1], data = [1]\<rparr>, tag = ''img/instance_0/channel_0''\<rparr>,
             Tagged \<lparr>array = \<lparr>shape = [1, 1], data = [2]\<rparr>, tag = ''img/instance_1/channel_0''\<rparr>]"
proof -
  let ?t = "\<lparr>tensor_type = FloatTensor, as_array = \<lparr>shape = [2, 1, 1, 1], data = [1, 2]\<rparr>\<rparr>"
  have h1: "shape (as_array ?t) = [2, 1, 1, 1]" by simp
  have h2: "image_batch_indices (config_of (init 0)) = Token ''all''" by (simp add: init_def)
  have h3: "image_channel_indices (config_of (init 0)) = Token ''all''" by (simp add: init_def)
  have e: "[tag_image (subarray (subarray (as_array ?t) i) c) ''img'' None (Some i) (Some c) None.
              i \<leftarrow> [0..<2], c \<leftarrow> [0..<1]]
           = [\<lparr>array = \<lparr>shape = [1, 1], data = [1]\<rparr>, tag = ''img/instance_0/channel_0''\<rparr>,
              \<lparr>array = \<lparr>shape = [1, 1], data = [2]\<rparr>, tag = ''img/instance_1/channel_0''\<rparr>]"
    by code_simp
  from extract_images_all_indices [OF h1 h2 h3, of "\<lambda>b. []" "''img''" None]
  have "extract_images_from_batch (\<lambda>b. []) (config_of (init 0)) (BTensor ?t) (Some ''img'') None
        = Inr (map Tagged
            [tag_image (subarray (subarray (as_array ?t) i) c) ''img'' None (Some i) (Some c) None.
              i \<leftarrow> [0..<2], c \<leftarrow> [0..<1]])"
    by blast
  with e h1 h2 h3 show ?thesis by simp
qed

subsection \<open>Volume batches\<close>

text \<open>
  C5, as stated, fails for a volume batch without z-slices: of shape (1, 1, 0, 1, 1), it
  gives no image at all, not 1 * 1.
\<close>

theorem extract_volume_without_slices_counterexample:
  "extract_images_from_batch (\<lambda>b. []) (config_of (init 0))
     (BTensor \<lparr>tensor_type = FloatTensor, as_array = \<lparr>shape = [1, 1, 0, 1, 1], data = []\<rparr>\<rparr>)
     (Some ''volume'') None = Inr []"
  by (simp add: assert_raise_def extract_images_from_tensor_def is_image_tensor_def
      is_volume_tensor_def ndim_def init_def iterate_def enumerate_eq_zip subarray_def)

text \<open>
  C5, amended: for a volume batch of shape (N, C, Z, H, W) with Z at least 1, the z
  selection \<^verbatim>\<open>'mid'\<close> and the batch and channel selections \<^verbatim>\<open>'all'\<close>,
  \<^verbatim>\<open>extract_images_from_batch\<close> (called with a base tag, or with neither base tag nor
  prefix) returns N * C images, one for every pair of an instance and a channel, each the
  z-slice of index Z div 2.
\<close>

theorem extract_volume_mid_slice:
  assumes "shape (as_array t) = [N, C, Z, H, W]" and "0 < Z"
    and "image_batch_indices cfg = Token ''all''"
    and "image_channel_indices cfg = Token ''all''"
    and "volume_z_indices cfg = Token ''mid''"
    and "base_tag = None \<longrightarrow> prefix = None"
  shows "\<exists>images.
           extract_images_from_batch format_batch cfg (BTensor t) base_tag prefix = Inr images
           \<and> images = [image_entry base_tag prefix
                          (subarray (subarray (subarray (as_array t) i) c) (Z div 2))
                          (Some i) (Some c) (Some (Z div 2)). i \<leftarrow> [0..<N], c \<leftarrow> [0..<C]]
           \<and> length images = N * C"
proof -
  let ?b = "as_array t"
  have img: "\<not> is_image_tensor t" and vol: "is_volume_tensor t"
    using assms(1) by (simp_all add: is_image_tensor_def is_volume_tensor_def ndim_def)
  have sh: "shape ?b = N # C # Z # [H, W]" using assms(1) by simp
  have pre: "(if base_tag = None then assert_raise (prefix = None) ValueError else None) = None"
    using assms(6) by (simp add: assert_raise_def)
  have "extract_images_from_batch format_batch cfg (BTensor t) base_tag prefix
        = Inr (concat (map (\<lambda>i. map (\<lambda>c. image_entry base_tag prefix
                 (subarray (subarray (subarray ?b i) c) (Z div 2))
                 (Some i) (Some c) (Some (Z div 2))) [0..<C]) [0..<N]))"
    using img vol assms(3,4,5)
      volume_comprehension_mid [OF sh assms(2),
        of "\<lambda>img i c s. image_entry base_tag prefix img (Some i) (Some c) (Some s)"]
    by (simp add: pre extract_images_from_tensor_def Let_def assms(1))
  moreover have "length (concat (map (\<lambda>i. map (\<lambda>c. image_entry base_tag prefix
                 (subarray (subarray (subarray ?b i) c) (Z div 2))
                 (Some i) (Some c) (Some (Z div 2))) [0..<C]) [0..<N])) = N * C"
    by (rule length_concat_map_upt)
  ultimately show ?thesis by simp
qed

text \<open>C5, amended, at a volume batch of one instance, two channels and three slices.\<close>

theorem extract_volume_mid_slice_witness:
  "shape (as_array \<lparr>tensor_type = FloatTensor,
                    as_array = \<lparr>shape = [1, 2, 3, 1, 1], data = [1, 2, 3, 4, 5, 6]\<rparr>\<rparr>)
     = [1, 2, 3, 1, 1]
   \<and> (0::nat) < 3
   \<and> image_batch_indices (config_of (init 0)) = Token ''all''
   \<and> image_channel_indices (config_of (init 0)) = Token ''all''
   \<and> volume_z_indices (config_of (init 0)) = Token ''mid''
   \<and> extract_images_from_batch (\<lambda>b. []) (config_of (init 0))
        (BTensor \<lparr>tensor_type = FloatTensor,
                  as_array = \<lparr>shape = [1, 2, 3, 1, 1], data = [1, 2, 3, 4, 5, 6]\<rparr>\<rparr>)
        (Some ''vol'') None
      = Inr [Tagged \<lparr>array = \<lparr>shape = [1, 1], data = [2]\<rparr>,
                     tag = ''vol/instance_0/channel_0/slice_1''\<rparr>,
             Tagged \<lparr>array = \<lparr>shape = [1, 1], data = [5]\<rparr>,
                     tag = ''vol/instance_0/channel_1/slice_1''\<rparr>]"
proof -
  let ?t = "\<lparr>tensor_type = FloatTensor,
             as_array = \<lparr>shape = [1, 2, 3, 1, 1], data = [1, 2, 3, 4, 5, 6]\<rparr>\<rparr>"
  have h1: "shape (as_array ?t) = [1, 2, 3, 1, 1]" by simp
  have h2: "(0::nat) < 3" by simp
  have h3: "image_batch_indices (config_of (init 0)) = Token ''all''" by (simp add: init_def)
  have h4: "image_channel_indices (config_of (init 0)) = Token ''all''" by (simp add: init_def)
  have h5: "volume_z_indices (config_of (init 0)) = Token ''mid''" by (simp add: init_def)
  have h6: "Some ''vol'' = None \<longrightarrow> (None :: string option) = None" by simp
  have e: "[image_entry (Some ''vol'') None
              (subarray (subarray (subarray (as_array ?t) i) c) (3 div 2))
              (Some i) (Some c) (Some (3 div 2)). i \<leftarrow> [0..<1], c \<leftarrow> [0..<2]]
           = [Tagged \<lparr>array = \<lparr>shape = [1, 1], data = [2]\<rparr>,
                     tag = ''vol/instance_0/channel_0/slice_1''\<rparr>,
              Tagged \<lparr>array = \<lparr>shape = [1, 1], data = [5]\<rparr>,
                     tag = ''vol/instance_0/channel_1/slice_1''\<rparr>]"
    by code_simp
  from extract_volume_mid_slice [OF h1 h2 h3 h4 h5 h6, of "\<lambda>b. []"]
  have "extract_images_from_batch (\<lambda>b. []) (config_of (init 0)) (BTensor ?t) (Some ''vol'') None
        = Inr [image_entry (Some ''vol'') None
              (subarray (subarray (subarray (as_array ?t) i) c) (3 div 2))
              (Some i) (Some c) (Some (3 div 2)). i \<leftarrow> [0..<1], c \<leftarrow> [0..<2]]"
    by blast
  with e h1 h2 h3 h4 h5 show ?thesis by simp
qed

section \<open>Properties of the dispatcher\<close>

subsection \<open>Converting a plain integer\<close>

lemma bit_length_bounds: "0 < n \<Longrightarrow> 2 ^ (bit_length n - 1) \<le> n \<and> n < 2 ^ bit_length n"
proof (induction n rule: bit_length.induct)
  case (1 n)
  show ?case
  proof (cases "n div 2 = 0")
    case True
    with "1.prems" have "n = 1" by (simp add: div_eq_0_iff) 
    then show ?thesis
      by (simp add: bit_length.simps [of "Suc 0"] bit_length.simps [of 0])
  next
    case False
    with "1.IH" "1.prems" have ih: "2 ^ (bit_length (n div 2) - 1) \<le> n div 2"
      "n div 2 < 2 ^ bit_length (n div 2)" by simp_all
    have pos: "0 < bit_length (n div 2)"
      using False by (simp add: bit_length.simps [of "n div 2"])
    have bl: "bit_length n = Suc (bit_length (n div 2))"
      using "1.prems" by (simp add: bit_length.simps [of n])
    have "(2::nat) ^ bit_length (n div 2) = 2 * 2 ^ (bit_length (n div 2) - 1)"
      using pos by (cases "bit_length (n div 2)") simp_all
    moreover have "2 * (n div 2) \<le> n" and "n < 2 * (n div 2) + 2"
      by presburger+
    ultimately have "(2::nat) ^ bit_length (n div 2) \<le> n"
      and "n < 2 * 2 ^ bit_length (n div 2)"
      using ih by linarith+
    then show ?thesis unfolding bl by simp
  qed
qed

lemma round_to_double_large:
  assumes "2 ^ 1024 \<le> m"
  shows "2 ^ 1024 \<le> round_to_double m"
proof -
  let ?l = "bit_length m"
  have m0: "0 < m" using assms by (metis less_le_trans zero_less_numeral zero_less_power)
  from bit_length_bounds [OF m0] have lo: "2 ^ (?l - 1) \<le> m" and hi: "m < 2 ^ ?l" by simp_all
  from assms hi have "(2::nat) ^ 1024 < 2 ^ ?l" by linarith
  then have l: "1024 < ?l" by (rule power_less_imp_less_exp [rotated]) simp
  let ?e = "?l - 53"
  let ?q = "m div 2 ^ ?e"
  have split: "?l - 1 = 52 + ?e" using l by simp
  have "2 ^ 52 * 2 ^ ?e \<le> m" using lo unfolding split by (simp add: power_add)
  then have q: "2 ^ 52 \<le> ?q"
    by (simp add: less_eq_div_iff_mult_less_eq)
  have "(2::nat) ^ 1024 \<le> 2 ^ (?l - 1)"
    using l by (intro power_increasing) simp_all
  also have "\<dots> = 2 ^ 52 * 2 ^ ?e" unfolding split by (simp add: power_add)
  also have "\<dots> \<le> ?q * 2 ^ ?e" using q by simp
  also have "\<dots> \<le> round_to_double m"
    using l by (simp add: round_to_double_def Let_def)
  finally show ?thesis .
qed

lemma py_float_small: "\<bar>n\<bar> < 2 ^ 53 \<Longrightarrow> py_float n = Inr (real_of_int n)"
proof -
  assume a: "\<bar>n\<bar> < 2 ^ 53"
  let ?m = "nat \<bar>n\<bar>"
  have m: "?m < 2 ^ 53" using a by (simp add: nat_less_iff)
  have "bit_length ?m \<le> 53"
  proof (cases "?m = 0")
    case True
    then show ?thesis by (simp add: bit_length.simps [of 0])
  next
    case False
    then have "2 ^ (bit_length ?m - 1) \<le> ?m" using bit_length_bounds [of ?m] by simp
    with m have "(2::nat) ^ (bit_length ?m - 1) < 2 ^ 53" by linarith
    then have "bit_length ?m - 1 < 53" by (rule power_less_imp_less_exp [rotated]) simp
    then show ?thesis by simp
  qed
  then have r: "round_to_double ?m = ?m" by (simp add: round_to_double_def Let_def)
  have "(2::nat) ^ 53 < 2 ^ 1024" by (simp add: power_strict_increasing_iff)
  with m have "\<not> 2 ^ 1024 \<le> ?m" by linarith
  moreover have "sgn n * int ?m = n" by (simp add: sgn_if)
  ultimately show ?thesis unfolding py_float_def Let_def r by simp
qed

lemma bit_length_le:
  assumes "m < 2 ^ k"
  shows "bit_length m \<le> k"
proof (cases "m = 0")
  case True
  then show ?thesis by (simp add: bit_length.simps [of 0])
next
  case False
  then have "2 ^ (bit_length m - 1) \<le> m" using bit_length_bounds [of m] by simp
  with assms have "(2::nat) ^ (bit_length m - 1) < 2 ^ k" by linarith
  then have "bit_length m - 1 < k" by (rule power_less_imp_less_exp [rotated]) simp
  then show ?thesis by simp
qed

lemma bit_length_ge:
  assumes "2 ^ k \<le> m"
  shows "k < bit_length m"
proof -
  have "0 < m" using assms by (metis less_le_trans zero_less_numeral zero_less_power)
  then have "m < 2 ^ bit_length m" using bit_length_bounds [of m] by simp
  with assms have "(2::nat) ^ k < 2 ^ bit_length m" by linarith
  then show ?thesis by (rule power_less_imp_less_exp [rotated]) simp
qed

lemma round_to_double_le: "round_to_double m \<le> 2 ^ max 53 (bit_length m)"
proof (cases "bit_length m \<le> 53")
  case True
  have "m < 2 ^ bit_length m \<or> m = 0" using bit_length_bounds [of m] by auto
  then have "m \<le> 2 ^ bit_length m" by auto
  also have "\<dots> \<le> (2::nat) ^ 53" using True by (intro power_increasing) simp_all
  finally show ?thesis using True by (simp add: round_to_double_def Let_def max_def)
next
  case False
  let ?l = "bit_length m"
  let ?e = "?l - 53"
  let ?q = "m div 2 ^ ?e"
  have m0: "0 < m" using False by (cases "m = 0") (simp_all add: bit_length.simps [of 0])
  have l: "?l = 53 + ?e" using False by simp
  have "m < 2 ^ ?l" using bit_length_bounds [OF m0] by simp
  then have "m < 2 ^ 53 * 2 ^ ?e" by (subst (asm) l) (simp add: power_add)
  then have "?q < 2 ^ 53" by (simp add: less_mult_imp_div_less mult.commute)
  then have "(if m mod 2 ^ ?e > 2 ^ (?e - 1) \<or> (m mod 2 ^ ?e = 2 ^ (?e - 1) \<and> odd ?q)
              then ?q + 1 else ?q) \<le> 2 ^ 53" by simp
  then have "(if m mod 2 ^ ?e > 2 ^ (?e - 1) \<or> (m mod 2 ^ ?e = 2 ^ (?e - 1) \<and> odd ?q)
              then ?q + 1 else ?q) * 2 ^ ?e \<le> 2 ^ 53 * 2 ^ ?e"
    by (rule mult_right_mono) simp
  also have "\<dots> = 2 ^ ?l" by (subst (2) l) (simp add: power_add)
  finally show ?thesis using False by (simp add: round_to_double_def Let_def max_def)
qed

lemma round_to_double_top:
  assumes "bit_length m = 1024"
  shows "2 ^ 1024 \<le> round_to_double m \<longleftrightarrow> 2 ^ 1024 - 2 ^ 970 \<le> m"
proof -
  let ?q = "m div 2 ^ 971"
  let ?r = "m mod 2 ^ 971"
  have m0: "0 < m" using assms by (cases "m = 0") (simp_all add: bit_length.simps [of 0])
  have hi: "m < 2 ^ 1024" using bit_length_bounds [OF m0] assms by simp
  have m: "m = ?q * 2 ^ 971 + ?r" by simp
  have r: "?r < 2 ^ 971" by simp
  have p: "(2::nat) ^ 1024 = 2 ^ 53 * 2 ^ 971" "(2::nat) ^ 971 = 2 * 2 ^ 970"
    by (simp_all add: power_add [symmetric])
  have q: "?q < 2 ^ 53"
    using hi unfolding p by (simp add: less_mult_imp_div_less mult.commute)
  have rd: "round_to_double m
            = (if ?r > 2 ^ 970 \<or> (?r = 2 ^ 970 \<and> odd ?q) then ?q + 1 else ?q) * 2 ^ 971"
    using assms by (simp add: round_to_double_def Let_def)
  show ?thesis
  proof (cases "?q = 2 ^ 53 - 1")
    case True
    then have odd: "odd ?q" by simp
    have "2 ^ 1024 \<le> round_to_double m \<longleftrightarrow> 2 ^ 970 \<le> ?r"
      unfolding rd using True odd by (auto simp add: p)
    also have "\<dots> \<longleftrightarrow> 2 ^ 1024 - 2 ^ 970 \<le> (2 ^ 53 - 1) * 2 ^ 971 + ?r"
      by simp
    also have "(2 ^ 53 - 1) * 2 ^ 971 + ?r = m"
      using m unfolding True by simp
    finally show ?thesis .
  next
    case False
    with q have q': "?q + 1 < 2 ^ 53" by simp
    then have "(if ?r > 2 ^ 970 \<or> (?r = 2 ^ 970 \<and> odd ?q) then ?q + 1 else ?q) < 2 ^ 53"
      by simp
    then have "round_to_double m < 2 ^ 53 * 2 ^ 971"
      unfolding rd by (rule mult_strict_right_mono) simp
    then have a: "\<not> 2 ^ 1024 \<le> round_to_double m" unfolding p by simp
    from q' have "?q * 2 ^ 971 + 2 ^ 971 \<le> (2 ^ 53 - 1) * 2 ^ 971"
      by simp
    with r have "m < (2 ^ 53 - 1) * 2 ^ 971"
      by (subst m) linarith
    then have "\<not> 2 ^ 1024 - 2 ^ 970 \<le> m" by simp
    with a show ?thesis by simp
  qed
qed

lemma py_float_overflow_iff:
  "py_float n = Inl OverflowError \<longleftrightarrow> 2 ^ 1024 - 2 ^ 970 \<le> \<bar>n\<bar>"
proof -
  let ?m = "nat \<bar>n\<bar>"
  have ov: "py_float n = Inl OverflowError \<longleftrightarrow> 2 ^ 1024 \<le> round_to_double ?m"
    by (simp add: py_float_def Let_def)
  have thr: "2 ^ 1024 - 2 ^ 970 \<le> \<bar>n\<bar> \<longleftrightarrow> 2 ^ 1024 - 2 ^ 970 \<le> ?m"
    by (simp add: le_nat_iff)
  consider (small) "?m < 2 ^ 1023" | (top) "2 ^ 1023 \<le> ?m" "?m < 2 ^ 1024" | (large) "2 ^ 1024 \<le> ?m"
    by linarith
  then have "2 ^ 1024 \<le> round_to_double ?m \<longleftrightarrow> 2 ^ 1024 - 2 ^ 970 \<le> ?m"
  proof cases
    case small
    then have "bit_length ?m \<le> 1023" by (rule bit_length_le)
    then have "max 53 (bit_length ?m) \<le> 1023" by simp
    then have "(2::nat) ^ max 53 (bit_length ?m) \<le> 2 ^ 1023"
      by (intro power_increasing) simp_all
    with round_to_double_le [of ?m] have "round_to_double ?m \<le> 2 ^ 1023" by linarith
    then have "\<not> 2 ^ 1024 \<le> round_to_double ?m" by simp
    moreover from small have "\<not> 2 ^ 1024 - 2 ^ 970 \<le> ?m" by simp
    ultimately show ?thesis by simp
  next
    case top
    from top(1) have "1023 < bit_length ?m" by (rule bit_length_ge)
    moreover from top(2) have "bit_length ?m \<le> 1024" by (rule bit_length_le)
    ultimately have "bit_length ?m = 1024" by simp
    then show ?thesis by (rule round_to_double_top)
  next
    case large
    then have "2 ^ 1024 \<le> round_to_double ?m" by (rule round_to_double_large)
    moreover from large have "2 ^ 1024 - 2 ^ 970 \<le> ?m" by simp
    ultimately show ?thesis by simp
  qed
  with ov thr show ?thesis by simp
qed

subsection \<open>Scalars\<close>

text \<open>
  C6, as stated, fails for a plain \<^verbatim>\<open>int\<close> that no double can hold: \<^verbatim>\<open>float(object_)\<close>
  raises \<^verbatim>\<open>OverflowError\<close> before anything is written. Here at \<open>2 * 10 ^ 308\<close>.
\<close>

theorem log_object_huge_int_counterexample:
  "log_object (\<lambda>b. []) (init 5) ''training_loss'' (OInt (2 * 10 ^ 308)) True True True
     = (Some OverflowError, init 5)"
proof -
  have "(2::int) ^ 1024 - 2 ^ 970 \<le> \<bar>2 * 10 ^ 308\<bar>" by simp
  then have "py_float (2 * 10 ^ 308) = Inl OverflowError"
    by (simp only: py_float_overflow_iff)
  then show ?thesis by simp
qed

text \<open>
  C6, amended: for a scalar value, that is a 0-dimensional tensor, a \<^verbatim>\<open>float\<close>, or an
  \<^verbatim>\<open>int\<close> of magnitude below \<open>2 ^ 1024 - 2 ^ 970\<close> (those that \<^verbatim>\<open>float\<close> converts), and
  any tag, \<^verbatim>\<open>log_object\<close> with scalar logging allowed returns after exactly one call of
  the writer, \<^verbatim>\<open>add_scalar\<close> with that tag, the value (for an \<^verbatim>\<open>int\<close> the nearest double)
  and the trainer's iteration count as step; nothing else of the logger changes.
\<close>

theorem log_object_scalar:
  assumes "(\<exists>t. obj = OTensor t \<and> is_scalar_tensor t \<and> wellformed (as_array t)
                \<and> v = hd (data (as_array t)))
           \<or> obj = OFloat v
           \<or> (\<exists>n. obj = OInt n \<and> \<bar>n\<bar> < 2 ^ 1024 - 2 ^ 970
                \<and> v = real_of_int (sgn n * int (round_to_double (nat \<bar>n\<bar>))))"
  shows "log_object format_batch self the_tag obj True allow_image_logging allow_histogram_logging
         = (None, self\<lparr>writer_handle :=
               Some (fst (writer self) @ [AddScalar the_tag v (iteration_count self)])\<rparr>)"
proof -
  have w: "\<And>c. add_call self c = self\<lparr>writer_handle := Some (fst (writer self) @ [c])\<rparr>"
    by (simp add: add_call_def writer_def split: option.splits)
  from assms consider
      (tensor) t where "obj = OTensor t" "is_scalar_tensor t" "wellformed (as_array t)"
        "v = hd (data (as_array t))"
    | (float) "obj = OFloat v"
    | (int) n where "obj = OInt n" "\<bar>n\<bar> < 2 ^ 1024 - 2 ^ 970"
        "v = real_of_int (sgn n * int (round_to_double (nat \<bar>n\<bar>)))"
    by blast
  then show ?thesis
  proof cases
    case tensor
    then have "length (data (as_array t)) = 1"
      by (simp add: is_scalar_tensor_def wellformed_def ndim_def)
    then obtain x where "data (as_array t) = [x]"
      by (cases "data (as_array t)") auto
    with tensor show ?thesis
      by (simp add: unwrap_item_def log_scalar_def w)
  next
    case float
    then show ?thesis by (simp add: log_scalar_def w)
  next
    case int
    from int(2) have "\<not> 2 ^ 1024 - 2 ^ 970 \<le> \<bar>n\<bar>" by linarith
    then have "py_float n \<noteq> Inl OverflowError"
      by (simp only: py_float_overflow_iff not_False_eq_True)
    then have "py_float n = Inr v"
      unfolding int(3) by (simp add: py_float_def Let_def split: if_splits)
    with int(1) show ?thesis by (simp add: log_scalar_def w)
  qed
qed

text \<open>
  C6, amended, at the plain number 0.42 in iteration 5, at a scalar tensor in iteration 7
  and at the plain integer 12 in iteration 9.
\<close>

theorem log_object_scalar_witness:
  "log_object (\<lambda>b. []) (init 5) ''training_loss'' (OFloat 0.42) True True True
     = (None, (init 5)\<lparr>writer_handle := Some [AddScalar ''training_loss'' 0.42 5]\<rparr>)
   \<and> log_object (\<lambda>b. []) ((init 7)\<lparr>writer_handle := Some [AddScalar ''a'' 1 6]\<rparr>) ''lr''
        (OTensor \<lparr>tensor_type = FloatTensor, as_array = \<lparr>shape = [], data = [3]\<rparr>\<rparr>)
        True False False
     = (None, (init 7)\<lparr>writer_handle := Some [AddScalar ''a'' 1 6, AddScalar ''lr'' 3 7]\<rparr>)
   \<and> \<bar>12 :: int\<bar> < 2 ^ 1024 - 2 ^ 970
   \<and> log_object (\<lambda>b. []) (init 9) ''epoch'' (OInt 12) True True True
     = (None, (init 9)\<lparr>writer_handle := Some [AddScalar ''epoch'' 12 9]\<rparr>)"
proof -
  let ?t = "\<lparr>tensor_type = FloatTensor, as_array = \<lparr>shape = [], data = [3]\<rparr>\<rparr>"
  have h1: "(\<exists>t. OFloat 0.42 = OTensor t \<and> is_scalar_tensor t \<and> wellformed (as_array t)
                \<and> 0.42 = hd (data (as_array t)))
           \<or> OFloat 0.42 = OFloat 0.42
           \<or> (\<exists>n. OFloat 0.42 = OInt n \<and> \<bar>n\<bar> < 2 ^ 1024 - 2 ^ 970
                \<and> 0.42 = real_of_int (sgn n * int (round_to_double (nat \<bar>n\<bar>))))"
    by blast
  have "is_scalar_tensor ?t \<and> wellformed (as_array ?t) \<and> 3 = hd (data (as_array ?t))"
    by (simp add: is_scalar_tensor_def wellformed_def ndim_def)
  then have h2: "(\<exists>t. OTensor ?t = OTensor t \<and> is_scalar_tensor t \<and> wellformed (as_array t)
                \<and> 3 = hd (data (as_array t)))
           \<or> OTensor ?t = OFloat 3
           \<or> (\<exists>n. OTensor ?t = OInt n \<and> \<bar>n\<bar> < 2 ^ 1024 - 2 ^ 970
                \<and> 3 = real_of_int (sgn n * int (round_to_double (nat \<bar>n\<bar>))))"
    by blast
  have r: "round_to_double 12 = 12" by code_simp
  have small: "\<bar>12 :: int\<bar> < 2 ^ 1024 - 2 ^ 970" by simp
  have "12 = real_of_int (sgn 12 * int (round_to_double (nat \<bar>12\<bar>)))"
    by (simp add: r)
  with small have h3: "(\<exists>t. OInt 12 = OTensor t \<and> is_scalar_tensor t \<and> wellformed (as_array t)
                \<and> 12 = hd (data (as_array t)))
           \<or> OInt 12 = OFloat 12
           \<or> (\<exists>n. OInt 12 = OInt n \<and> \<bar>n\<bar> < 2 ^ 1024 - 2 ^ 970
                \<and> 12 = real_of_int (sgn n * int (round_to_double (nat \<bar>n\<bar>))))"
    by blast
  show ?thesis
    using log_object_scalar [OF h1, of "\<lambda>b. []" "init 5" "''training_loss''" True True]
      log_object_scalar [OF h2, of "\<lambda>b. []" "(init 7)\<lparr>writer_handle := Some [AddScalar ''a'' 1 6]\<rparr>"
         "''lr''" False False]
      log_object_scalar [OF h3, of "\<lambda>b. []" "init 9" "''epoch''" True True]
      small
    by (simp add: init_def writer_def)
qed

end
